theory Spec2Isabelle
  imports Main "HOL-Library.Word"
begin

section \<open>The GELF writer of \<open>logger.go\<close>\<close>

text \<open>
  The development embeds the transport sink of \<open>src/logger.go\<close>: the methods
  \<open>Write\<close>, \<open>chunkCount\<close> and \<open>writeChunked\<close> of the type \<open>writer\<close>, and the
  constructor \<open>New\<close>. Go's \<open>int\<close> is modelled by \<open>int\<close>: where the chunk data size
  is positive and the chunk count above 1, every integer the methods compute is at
  most 256 times the length of a byte slice held in memory, so the 64-bit wrap-around
  is out of reach. The loop counter and the chunk total are \<open>uint8\<close> in the source
  and 8-bit words here. A Go call either returns its results or panics; a panic is
  the left injection of a sum.
\<close>

subsection \<open>Data\<close>

type_synonym byte = "8 word"

abbreviation len :: "'a list \<Rightarrow> int" where
  "len b \<equiv> int (length b)"

datatype panic = NilDereference | DivideByZero | SliceBounds | MakeSliceCap

text \<open>
  The error values: \<open>ErrExternal\<close> is an error made outside the package (by \<open>net\<close>,
  \<open>crypto/rand\<close> or \<open>zap\<close>); the others are the values the source and the standard
  library build with \<open>fmt.Errorf\<close>, with the formatted arguments as fields.
\<close>

datatype error =
    ErrExternal string
  | ErrGzipLevel int
  | ErrZlibLevel int
  | ErrNeedChunks int int
  | ErrRandReader int "error option"
  | ErrWrited int int
  | ErrBytesLeft int

text \<open>
  A connection answers a \<open>Write\<close> with a byte count and an error; the answer may depend
  on the datagram and on the datagrams written before it.
\<close>

type_synonym transport = "byte list list \<Rightarrow> byte list \<Rightarrow> int \<times> error option"

record writer =
  conn :: transport
  chunkSize :: int
  chunkDataSize :: int
  compressionType :: int
  compressionLevel :: int

text \<open>
  The compressors are parameters: the streams \<open>compress/gzip\<close> and \<open>compress/zlib\<close>
  produce for a level and an input.
\<close>

record codecs =
  gzip_stream :: "int \<Rightarrow> byte list \<Rightarrow> byte list"
  zlib_stream :: "int \<Rightarrow> byte list \<Rightarrow> byte list"

text \<open>
  The state outside the package: the answers of \<open>crypto/rand\<close>'s reader (the bytes of
  the k-th read and its error), the number of reads made from it, and the datagrams
  handed to the connection so far, oldest first.
\<close>

record env =
  rand_Reader :: "nat \<Rightarrow> byte list \<times> error option"
  rand_reads :: nat
  conn_writes :: "byte list list"

definition MaxChunkCount :: int where
  "MaxChunkCount = 128"

definition DefaultChunkSize :: int where
  "DefaultChunkSize = 1420"

definition CompressionNone :: int where
  "CompressionNone = 0"

definition CompressionGzip :: int where
  "CompressionGzip = 1"

definition CompressionZlib :: int where
  "CompressionZlib = 2"

definition chunkedMagicBytes :: "byte list" where
  "chunkedMagicBytes = [0x1e, 0x0f]"

subsection \<open>The library calls the writer makes\<close>

text \<open>
  The value of \<open>cw\<close> in \<open>Write\<close>. \<open>WriteCloser\<close> embeds a \<open>bytes.Buffer\<close> by value, so it
  owns the bytes it holds; the gzip and zlib writers hold a pointer to the buffer they
  were made for, and the input written to them so far.
\<close>

datatype compress_writer =
    NilWriter
  | WriteCloser "byte list"
  | GzipWriter int "byte list"
  | ZlibWriter int "byte list"

text \<open>
  \<open>gzip.NewWriterLevel\<close> and \<open>zlib.NewWriterLevel\<close> refuse a level below
  \<open>HuffmanOnly = -2\<close> or above \<open>BestCompression = 9\<close>.
\<close>

definition gzip_NewWriterLevel :: "int \<Rightarrow> compress_writer \<times> error option" where
  "gzip_NewWriterLevel level =
     (if level < - 2 \<or> level > 9 then (NilWriter, Some (ErrGzipLevel level))
      else (GzipWriter level [], None))"

definition zlib_NewWriterLevel :: "int \<Rightarrow> compress_writer \<times> error option" where
  "zlib_NewWriterLevel level =
     (if level < - 2 \<or> level > 9 then (NilWriter, Some (ErrZlibLevel level))
      else (ZlibWriter level [], None))"

text \<open>
  \<open>cw.Write(buf)\<close>, given the contents of the local \<open>cBuf\<close>: the new writer, the new
  contents of \<open>cBuf\<close>, and the results. A method call on the nil interface panics.
  \<open>writeCloser\<close> appends to the buffer it embeds and leaves \<open>cBuf\<close> alone. The
  compressors never fail on a \<open>bytes.Buffer\<close>; what they write to \<open>cBuf\<close> is read only
  after \<open>Close\<close>, so the model writes the whole stream there.
\<close>

fun cw_Write :: "compress_writer \<Rightarrow> byte list \<Rightarrow> byte list \<Rightarrow>
    panic + (compress_writer \<times> byte list \<times> int \<times> error option)" where
  "cw_Write NilWriter cBuf buf = Inl NilDereference"
| "cw_Write (WriteCloser own) cBuf buf = Inr (WriteCloser (own @ buf), cBuf, len buf, None)"
| "cw_Write (GzipWriter level inp) cBuf buf = Inr (GzipWriter level (inp @ buf), cBuf, len buf, None)"
| "cw_Write (ZlibWriter level inp) cBuf buf = Inr (ZlibWriter level (inp @ buf), cBuf, len buf, None)"

text \<open>\<open>cw.Close()\<close>: the contents of \<open>cBuf\<close> afterwards.\<close>

fun cw_Close :: "codecs \<Rightarrow> compress_writer \<Rightarrow> byte list \<Rightarrow> byte list" where
  "cw_Close cs NilWriter cBuf = cBuf"
| "cw_Close cs (WriteCloser own) cBuf = cBuf"
| "cw_Close cs (GzipWriter level inp) cBuf = cBuf @ gzip_stream cs level inp"
| "cw_Close cs (ZlibWriter level inp) cBuf = cBuf @ zlib_stream cs level inp"

text \<open>\<open>w.conn.Write(d)\<close>: the connection's answer, and the datagram recorded.\<close>

definition conn_Write :: "writer \<Rightarrow> byte list \<Rightarrow> env \<Rightarrow> (int \<times> error option) \<times> env" where
  "conn_Write w d e = (conn w (conn_writes e) d, e\<lparr>conn_writes := conn_writes e @ [d]\<rparr>)"

text \<open>
  \<open>io.ReadFull(rand.Reader, messageID)\<close> on the fresh 8-byte \<open>messageID\<close>: the count,
  the error and the contents of \<open>messageID\<close> afterwards. One read is consumed.
\<close>

definition ReadFull :: "env \<Rightarrow> (int \<times> error option \<times> byte list) \<times> env" where
  "ReadFull e =
     (let (bs, err) = rand_Reader e (rand_reads e);
          got = take 8 bs
      in ((len got, err, got @ replicate (8 - length got) 0),
          e\<lparr>rand_reads := Suc (rand_reads e)\<rparr>))"

text \<open>
  Go's integer division truncates towards zero and panics on a zero divisor;
  a slice expression \<open>b[lo:hi]\<close> panics unless \<open>0 \<le> lo \<le> hi\<close> and \<open>hi\<close> is within
  the slice (the model takes the length as the capacity).
\<close>

definition go_div :: "int \<Rightarrow> int \<Rightarrow> panic + int" where
  "go_div a b = (if b = 0 then Inl DivideByZero else Inr (sgn a * sgn b * (\<bar>a\<bar> div \<bar>b\<bar>)))"

definition slice :: "byte list \<Rightarrow> int \<Rightarrow> int \<Rightarrow> panic + byte list" where
  "slice b lo hi =
     (if 0 \<le> lo \<and> lo \<le> hi \<and> hi \<le> len b then Inr (take (nat (hi - lo)) (drop (nat lo) b))
      else Inl SliceBounds)"

subsection \<open>\<open>chunkCount\<close>, \<open>writeChunked\<close> and \<open>Write\<close>\<close>

definition chunkCount :: "writer \<Rightarrow> byte list \<Rightarrow> panic + int" where
  "chunkCount w b =
     (let lenB = len b
      in if lenB \<le> chunkSize w then Inr 1
         else case go_div (len b) (chunkDataSize w) of
                Inl p \<Rightarrow> Inl p
              | Inr q \<Rightarrow> Inr (q + 1))"

text \<open>
  The \<open>for\<close> loop of \<open>writeChunked\<close>, from the counter \<open>i\<close> and \<open>bytesLeft\<close>, together
  with the two statements that follow the loop.
\<close>

function writeChunked_loop :: "writer \<Rightarrow> byte list \<Rightarrow> byte list \<Rightarrow> byte \<Rightarrow> byte \<Rightarrow> int \<Rightarrow> env \<Rightarrow>
    (panic + int \<times> error option) \<times> env" where
  "writeChunked_loop w cBytes messageID nChunks i bytesLeft e =
     (if i < nChunks then
        (let off = uint i * chunkDataSize w;
             chunkLen = (if chunkDataSize w > bytesLeft then bytesLeft else chunkDataSize w)
         in case slice cBytes off (off + chunkLen) of
              Inl p \<Rightarrow> (Inl p, e)
            | Inr part \<Rightarrow>
                (let cBuf = chunkedMagicBytes @ messageID @ [i] @ [nChunks] @ part;
                     ((n, err), e') = conn_Write w cBuf e
                 in if err \<noteq> None then (Inr (len cBytes - bytesLeft + n, err), e')
                    else if n \<noteq> len cBuf then
                      (Inr (len cBytes - bytesLeft + n,
                            Some (ErrWrited (len cBytes - bytesLeft + n) (len cBytes))), e')
                    else writeChunked_loop w cBytes messageID nChunks (i + 1)
                           (bytesLeft - chunkLen) e'))
      else if bytesLeft \<noteq> 0 then
        (Inr (len cBytes - bytesLeft, Some (ErrBytesLeft bytesLeft)), e)
      else (Inr (len cBytes, None), e))"
  by pat_completeness auto
termination
proof (relation "measure (\<lambda>(w, cBytes, messageID, nChunks, i, bytesLeft, e). unat nChunks - unat i)",
    goal_cases)
  case 1
  show ?case by simp
next
  case (2 w cBytes messageID nChunks i)
  then have lt: "unat i < unat nChunks"
    by (simp add: word_less_nat_alt)
  have "unat nChunks < 256"
    using unsigned_less [of nChunks, where ?'a = nat] by simp
  with lt have "Suc (unat i) < 256"
    by simp
  then have "unat (i + 1) = Suc (unat i)"
    by (simp add: unat_word_ariths)
  with lt show ?case
    by simp
qed

declare writeChunked_loop.simps [simp del]

text \<open>
  \<open>writeChunked\<close> up to the loop. \<open>make([]byte, 0, w.chunkSize)\<close> panics on a negative
  capacity; \<open>uint8(count)\<close> keeps the low eight bits.
\<close>

definition writeChunked :: "writer \<Rightarrow> int \<Rightarrow> byte list \<Rightarrow> env \<Rightarrow> (panic + int \<times> error option) \<times> env" where
  "writeChunked w count cBytes e =
     (if count > MaxChunkCount then (Inr (0, Some (ErrNeedChunks count MaxChunkCount)), e)
      else if chunkSize w < 0 then (Inl MakeSliceCap, e)
      else
        (let nChunks = (word_of_int count :: byte);
             ((n, err, messageID), e') = ReadFull e
         in if err \<noteq> None \<or> n \<noteq> 8 then (Inr (0, Some (ErrRandReader n err)), e')
            else writeChunked_loop w cBytes messageID nChunks 0 (len cBytes) e'))"

text \<open>
  \<open>Write\<close> up to the assignment of \<open>cBytes\<close> (lines 130 to 154): either the call is
  over, with a panic or with the returned pair, or \<open>cBytes\<close> holds the compressed
  payload.
\<close>

definition Write_compress :: "codecs \<Rightarrow> writer \<Rightarrow> byte list \<Rightarrow> (panic + int \<times> error option) + byte list" where
  "Write_compress cs w buf =
     (let cBuf = [];
          (cw, err) =
            (if compressionType w = CompressionNone then (WriteCloser cBuf, None)
             else if compressionType w = CompressionGzip then gzip_NewWriterLevel (compressionLevel w)
             else if compressionType w = CompressionZlib then zlib_NewWriterLevel (compressionLevel w)
             else (NilWriter, None))
      in if err \<noteq> None then Inl (Inr (0, err))
         else case cw_Write cw cBuf buf of
                Inl p \<Rightarrow> Inl (Inl p)
              | Inr (cw', cBuf', n, err') \<Rightarrow>
                  if err' \<noteq> None then Inl (Inr (n, err'))
                  else Inr (cw_Close cs cw' cBuf'))"

text \<open>\<open>Write\<close> from the chunk count on (lines 155 to 167).\<close>

definition Write_send :: "writer \<Rightarrow> byte list \<Rightarrow> env \<Rightarrow> (panic + int \<times> error option) \<times> env" where
  "Write_send w cBytes e =
     (case chunkCount w cBytes of
        Inl p \<Rightarrow> (Inl p, e)
      | Inr count \<Rightarrow>
          if count > 1 then writeChunked w count cBytes e
          else
            (let ((n, err), e') = conn_Write w cBytes e
             in if err \<noteq> None then (Inr (n, err), e')
                else if n \<noteq> len cBytes then (Inr (n, Some (ErrWrited n (len cBytes))), e')
                else (Inr (n, None), e')))"

definition Write :: "codecs \<Rightarrow> writer \<Rightarrow> byte list \<Rightarrow> env \<Rightarrow> (panic + int \<times> error option) \<times> env" where
  "Write cs w buf e =
     (case Write_compress cs w buf of
        Inl done \<Rightarrow> (done, e)
      | Inr cBytes \<Rightarrow> Write_send w cBytes e)"

subsection \<open>\<open>New\<close>\<close>

text \<open>
  Of \<open>zap\<close>, the model keeps the core of the logger. \<open>ConsoleCore\<close> is the core that
  the production configuration builds by itself; \<open>GraylogCore w\<close> is
  \<open>zapcore.NewCore\<close> over the JSON encoder and the writer \<open>w\<close>. The fields that
  \<open>zap.Fields\<close> adds to the core are left out.
\<close>

record LoggingConfiguration =
  GraylogAddress :: string
  AppName :: string
  Hostname :: string

datatype core = ConsoleCore | GraylogCore writer

record logger =
  logger_core :: core

definition gzip_BestCompression :: int where
  "gzip_BestCompression = 9"

text \<open>The writer \<open>corewrap\<close> makes (lines 89 to 94), over the connection dialled.\<close>

definition graylog_writer :: "transport \<Rightarrow> writer" where
  "graylog_writer cn =
     \<lparr>conn = cn, chunkSize = DefaultChunkSize, chunkDataSize = DefaultChunkSize - 12,
      compressionType = CompressionGzip, compressionLevel = gzip_BestCompression\<rparr>"

text \<open>
  The closure \<open>corewrap\<close> (lines 87 to 109). \<open>DialTimeout\<close> is the outcome of
  \<open>net.DialTimeout("udp", address, 15*time.Second)\<close>: an error or a connection. The
  second component is what the closure prints.
\<close>

definition corewrap :: "(string \<Rightarrow> error + transport) \<Rightarrow> LoggingConfiguration \<Rightarrow> core \<Rightarrow>
    core \<times> string list" where
  "corewrap DialTimeout configuration c =
     (if GraylogAddress configuration \<noteq> [] then
        (case DialTimeout (GraylogAddress configuration) of
           Inl err \<Rightarrow> (c, [''could not connect with graylog, falling back to stdout''])
         | Inr cn \<Rightarrow> (GraylogCore (graylog_writer cn), []))
      else (c, []))"

text \<open>
  \<open>New\<close> returns what \<open>loggerConf.Build\<close> returns. \<open>Build\<close> makes the encoder and
  opens the sinks; when that fails (\<open>build_err\<close>) it returns the error and applies no
  option, otherwise it applies the options to the logger over the console core, of
  which \<open>zap.WrapCore(corewrap)\<close> replaces the core.
\<close>

definition New :: "(string \<Rightarrow> error + transport) \<Rightarrow> error option \<Rightarrow> LoggingConfiguration \<Rightarrow>
    (logger option \<times> error option) \<times> string list" where
  "New DialTimeout build_err configuration =
     (case build_err of
        Some err \<Rightarrow> ((None, Some err), [])
      | None \<Rightarrow>
          (let (c, out) = corewrap DialTimeout configuration ConsoleCore
           in ((Some \<lparr>logger_core = c\<rparr>, None), out)))"

subsection \<open>The datagrams of a chunked write\<close>

text \<open>
  The datagram the loop of \<open>writeChunked\<close> builds in \<open>cBuf\<close> in round \<open>k\<close> (lines 211
  to 216) when the slice \<open>cBytes[off : off+chunkLen]\<close> lies within \<open>cBytes\<close>: the
  slice is then the part of \<open>cBytes\<close> from \<open>k * chunkDataSize\<close>, \<open>chunkDataSize\<close> bytes
  long or up to the end.
\<close>

definition chunk_datagram :: "writer \<Rightarrow> byte list \<Rightarrow> byte list \<Rightarrow> byte \<Rightarrow> nat \<Rightarrow> byte list" where
  "chunk_datagram w cBytes messageID nChunks k =
     chunkedMagicBytes @ messageID @ [of_nat k] @ [nChunks] @
       take (nat (chunkDataSize w)) (drop (k * nat (chunkDataSize w)) cBytes)"

subsection \<open>Inputs for the concrete cases\<close>

text \<open>
  A connection that accepts every datagram whole; one that accepts every datagram but
  that of its \<open>k\<close>-th call (counted from 0), which it refuses having written nothing;
  a random source that answers every read with the same eight bytes.
\<close>

definition accept_all :: transport where
  "accept_all h d = (len d, None)"

definition refuse_call :: "nat \<Rightarrow> transport" where
  "refuse_call k h d =
     (if length h = k then (0, Some (ErrExternal ''write: connection refused''))
      else (len d, None))"

text \<open>
  A connection that accepts every datagram but that of its \<open>k\<close>-th call, of which it
  takes all bytes but the last and reports no error.
\<close>

definition short_call :: "nat \<Rightarrow> transport" where
  "short_call k h d = (if length h = k then (len d - 1, None) else (len d, None))"

definition sample_id :: "byte list" where
  "sample_id = [1, 2, 3, 4, 5, 6, 7, 8]"

text \<open>
  The configuration of \<open>TestNew\<close> in \<open>logger_test.go\<close>, and a dial that fails for
  every address.
\<close>

definition test_configuration :: LoggingConfiguration where
  "test_configuration =
     \<lparr>GraylogAddress = ''localhost:5141'', AppName = ''test'', Hostname = ''localhost''\<rparr>"

definition dial_fails :: "string \<Rightarrow> error + transport" where
  "dial_fails address = Inl (ErrExternal ''dial udp: i/o timeout'')"

definition sample_env :: env where
  "sample_env = \<lparr>rand_Reader = (\<lambda>k. (sample_id, None)), rand_reads = 0, conn_writes = []\<rparr>"

section \<open>Properties\<close>

subsection \<open>The chunk count and the compression step\<close>

lemma go_div_nonneg: "0 \<le> a \<Longrightarrow> 0 < b \<Longrightarrow> go_div a b = Inr (a div b)"
  by (cases "a = 0") (simp_all add: go_div_def)

lemma chunkCount_pos:
  "0 < chunkDataSize w \<Longrightarrow>
   chunkCount w b = Inr (if len b \<le> chunkSize w then 1 else len b div chunkDataSize w + 1)"
  by (simp add: chunkCount_def go_div_nonneg Let_def)

text \<open>
  Above the limit, the count is the ceiling of \<open>len / chunkDataSize\<close> unless the
  division is exact, where it is one more.
\<close>

lemma chunkCount_vs_ceiling:
  assumes "0 < chunkDataSize w" and "chunkSize w < len b"
  shows "chunkCount w b =
           Inr ((len b + chunkDataSize w - 1) div chunkDataSize w +
                (if len b mod chunkDataSize w = 0 then 1 else 0))"
proof -
  let ?c = "chunkDataSize w"
  have cc: "chunkCount w b = Inr (len b div ?c + 1)"
    using assms by (simp add: chunkCount_pos)
  show ?thesis
  proof (cases "len b mod ?c = 0")
    case True
    then obtain q where q: "len b = ?c * q"
      by (auto simp add: mod_eq_0_iff_dvd)
    have "(?c * q + (?c - 1)) div ?c = q + (?c - 1) div ?c"
      using assms(1) by simp
    also have "(?c - 1) div ?c = 0"
      using assms(1) by (simp add: div_pos_pos_trivial)
    finally have "(len b + ?c - 1) div ?c = q"
      using q by (simp add: algebra_simps)
    moreover have "len b div ?c = q"
      using q assms(1) by simp
    ultimately show ?thesis
      using cc True by simp
  next
    case False
    have nn: "0 \<le> len b mod ?c"
      by (rule pos_mod_sign [OF assms(1)])
    have m2: "len b mod ?c < ?c"
      by (rule pos_mod_bound [OF assms(1)])
    from nn False have m1: "0 < len b mod ?c"
      by linarith
    note m = m1 m2
    have e: "len b + ?c - 1 = ?c * (len b div ?c + 1) + (len b mod ?c - 1)"
      by (simp add: algebra_simps)
    have "(len b + ?c - 1) div ?c = (?c * (len b div ?c + 1) + (len b mod ?c - 1)) div ?c"
      by (simp only: e)
    also have "\<dots> = (len b div ?c + 1) + (len b mod ?c - 1) div ?c"
      using assms(1) by simp
    also have "(len b mod ?c - 1) div ?c = 0"
      using m by (simp add: div_pos_pos_trivial)
    finally show ?thesis
      using cc False by simp
  qed
qed

lemma Write_compress_None:
  "compressionType w = CompressionNone \<Longrightarrow> Write_compress cs w buf = Inr []"
  by (simp add: Write_compress_def)

subsection \<open>The loop of \<open>writeChunked\<close>\<close>

lemma slice_chunk:
  assumes "0 < c" and "0 \<le> off" and "off \<le> len b"
  shows "slice b off (off + (if c > len b - off then len b - off else c)) =
           Inr (take (nat c) (drop (nat off) b))"
  using assms by (auto simp add: slice_def)

lemma u8_succ:
  fixes i n :: byte
  assumes "i < n"
  shows "unat (i + 1) = Suc (unat i)" and "uint (i + 1) = uint i + 1" and "i + 1 \<le> n"
proof -
  from assms have lt: "unat i < unat n"
    by (simp add: word_less_nat_alt)
  have "unat n < 256"
    using unsigned_less [of n, where ?'a = nat] by simp
  with lt have "Suc (unat i) < 256"
    by simp
  then show s: "unat (i + 1) = Suc (unat i)"
    by (simp add: unat_word_ariths)
  then have "int (unat (i + 1)) = int (unat i) + 1"
    by simp
  then show "uint (i + 1) = uint i + 1"
    by simp
  from s lt show "i + 1 \<le> n"
    by (simp add: word_le_nat_alt)
qed

lemma loop_end:
  "\<not> i < nChunks \<Longrightarrow>
   writeChunked_loop w cBytes mid nChunks i bytesLeft e =
     (if bytesLeft \<noteq> 0 then (Inr (len cBytes - bytesLeft, Some (ErrBytesLeft bytesLeft)), e)
      else (Inr (len cBytes, None), e))"
  by (subst writeChunked_loop.simps) simp

lemma loop_step:
  assumes cds: "0 < chunkDataSize w" and lt: "i < nChunks"
    and rng: "uint i * chunkDataSize w \<le> len cBytes"
  shows "writeChunked_loop w cBytes mid nChunks i (len cBytes - uint i * chunkDataSize w) e =
    (let d = chunk_datagram w cBytes mid nChunks (unat i);
         e' = e\<lparr>conn_writes := conn_writes e @ [d]\<rparr>
     in case conn w (conn_writes e) d of (n, err) \<Rightarrow>
       if err \<noteq> None then (Inr (uint i * chunkDataSize w + n, err), e')
       else if n \<noteq> len d then
         (Inr (uint i * chunkDataSize w + n,
               Some (ErrWrited (uint i * chunkDataSize w + n) (len cBytes))), e')
       else writeChunked_loop w cBytes mid nChunks (i + 1)
              (max 0 (len cBytes - uint (i + 1) * chunkDataSize w)) e')"
proof -
  have off: "0 \<le> uint i * chunkDataSize w"
    using cds by simp
  have natoff: "nat (uint i * chunkDataSize w) = unat i * nat (chunkDataSize w)"
    using cds by (simp add: nat_mult_distrib)
  have sl: "slice cBytes (uint i * chunkDataSize w)
      (uint i * chunkDataSize w +
        (if chunkDataSize w > len cBytes - uint i * chunkDataSize w
         then len cBytes - uint i * chunkDataSize w else chunkDataSize w)) =
      Inr (take (nat (chunkDataSize w)) (drop (unat i * nat (chunkDataSize w)) cBytes))"
    using slice_chunk [OF cds off rng] natoff by simp
  have left: "len cBytes - uint i * chunkDataSize w -
      (if chunkDataSize w > len cBytes - uint i * chunkDataSize w
       then len cBytes - uint i * chunkDataSize w else chunkDataSize w) =
      max 0 (len cBytes - uint (i + 1) * chunkDataSize w)"
    using u8_succ(2) [OF lt] by (simp add: algebra_simps max_def)
  show ?thesis
    apply (subst writeChunked_loop.simps)
    apply (simp only: lt if_True Let_def sl sum.case left)
    apply (simp add: chunk_datagram_def conn_Write_def Let_def split: prod.splits)
    done
qed

lemma loop_step_max:
  assumes cds: "0 < chunkDataSize w" and lt: "i < nChunks"
    and rng: "(uint nChunks - 1) * chunkDataSize w \<le> len cBytes"
  shows "uint i * chunkDataSize w \<le> len cBytes"
    and "max 0 (len cBytes - uint i * chunkDataSize w) = len cBytes - uint i * chunkDataSize w"
proof -
  from lt have "uint i \<le> uint nChunks - 1"
    by (simp add: word_less_def)
  then have "uint i * chunkDataSize w \<le> (uint nChunks - 1) * chunkDataSize w"
    using cds by (simp add: mult_right_mono)
  with rng show "uint i * chunkDataSize w \<le> len cBytes"
    by simp
  then show "max 0 (len cBytes - uint i * chunkDataSize w) = len cBytes - uint i * chunkDataSize w"
    by simp
qed

lemma loop_accept:
  assumes cds: "0 < chunkDataSize w"
    and rng: "(uint nChunks - 1) * chunkDataSize w \<le> len cBytes"
    and le: "i \<le> nChunks"
    and acc: "\<forall>j. unat i \<le> j \<and> j < unat nChunks \<longrightarrow>
        conn w (conn_writes e @ map (chunk_datagram w cBytes mid nChunks) [unat i..<j])
          (chunk_datagram w cBytes mid nChunks j) =
        (len (chunk_datagram w cBytes mid nChunks j), None)"
  shows "writeChunked_loop w cBytes mid nChunks i
           (max 0 (len cBytes - uint i * chunkDataSize w)) e =
         (if max 0 (len cBytes - uint nChunks * chunkDataSize w) \<noteq> 0
          then Inr (len cBytes - max 0 (len cBytes - uint nChunks * chunkDataSize w),
                 Some (ErrBytesLeft (max 0 (len cBytes - uint nChunks * chunkDataSize w))))
          else Inr (len cBytes, None),
          e\<lparr>conn_writes := conn_writes e @
              map (chunk_datagram w cBytes mid nChunks) [unat i..<unat nChunks]\<rparr>)"
  using le acc
proof (induction "unat nChunks - unat i" arbitrary: i e)
  case 0
  then have "i = nChunks"
    by (simp add: word_le_nat_alt word_unat_eq_iff)
  then show ?case
    by (simp add: loop_end)
next
  case (Suc k)
  then have lt: "i < nChunks"
    by (simp add: word_less_nat_alt)
  note st = loop_step_max [OF cds lt rng]
  let ?d = "chunk_datagram w cBytes mid nChunks (unat i)"
  let ?e = "e\<lparr>conn_writes := conn_writes e @ [?d]\<rparr>"
  from lt have ui: "unat i < unat nChunks"
    by (simp add: word_less_nat_alt)
  from Suc.prems(2) ui have a0: "conn w (conn_writes e) ?d = (len ?d, None)"
    by (metis append_Nil2 le_refl list.simps(8) upt_rec less_irrefl)
  have k: "k = unat nChunks - unat (i + 1)"
    using Suc.hyps(2) u8_succ(1) [OF lt] by simp
  have acc': "\<forall>j. unat (i + 1) \<le> j \<and> j < unat nChunks \<longrightarrow>
        conn w (conn_writes ?e @ map (chunk_datagram w cBytes mid nChunks) [unat (i + 1)..<j])
          (chunk_datagram w cBytes mid nChunks j) =
        (len (chunk_datagram w cBytes mid nChunks j), None)"
  proof (intro allI impI)
    fix j
    assume j: "unat (i + 1) \<le> j \<and> j < unat nChunks"
    then have "unat i < j"
      using u8_succ(1) [OF lt] by simp
    then have up: "[unat i..<j] = unat i # [unat (i + 1)..<j]"
      using u8_succ(1) [OF lt] by (simp add: upt_conv_Cons)
    have "unat i \<le> j \<and> j < unat nChunks"
      using j u8_succ(1) [OF lt] by simp
    with Suc.prems(2) have "conn w (conn_writes e @ map (chunk_datagram w cBytes mid nChunks) [unat i..<j])
          (chunk_datagram w cBytes mid nChunks j) =
        (len (chunk_datagram w cBytes mid nChunks j), None)"
      by blast
    then show "conn w (conn_writes ?e @ map (chunk_datagram w cBytes mid nChunks) [unat (i + 1)..<j])
          (chunk_datagram w cBytes mid nChunks j) =
        (len (chunk_datagram w cBytes mid nChunks j), None)"
      by (simp add: up)
  qed
  have up: "[unat i..<unat nChunks] = unat i # [unat (i + 1)..<unat nChunks]"
    using ui u8_succ(1) [OF lt] by (simp add: upt_conv_Cons)
  show ?case
    unfolding st(2)
    apply (subst loop_step [OF cds lt st(1)])
    apply (simp only: Let_def a0 prod.case)
    apply (simp only: Suc.hyps(1) [OF k u8_succ(3) [OF lt] acc'])
    apply (simp add: up)
    done
qed

lemma loop_stop:
  assumes cds: "0 < chunkDataSize w"
    and rng: "(uint nChunks - 1) * chunkDataSize w \<le> len cBytes"
    and k: "unat i \<le> k" "k < unat nChunks"
    and acc: "\<forall>j. unat i \<le> j \<and> j < k \<longrightarrow>
        conn w (conn_writes e @ map (chunk_datagram w cBytes mid nChunks) [unat i..<j])
          (chunk_datagram w cBytes mid nChunks j) =
        (len (chunk_datagram w cBytes mid nChunks j), None)"
    and stop: "conn w (conn_writes e @ map (chunk_datagram w cBytes mid nChunks) [unat i..<k])
          (chunk_datagram w cBytes mid nChunks k) = (n, err)"
      "err \<noteq> None \<or> n \<noteq> len (chunk_datagram w cBytes mid nChunks k)"
  shows "writeChunked_loop w cBytes mid nChunks i
           (max 0 (len cBytes - uint i * chunkDataSize w)) e =
         (Inr (int k * chunkDataSize w + n,
            if err \<noteq> None then err
            else Some (ErrWrited (int k * chunkDataSize w + n) (len cBytes))),
          e\<lparr>conn_writes := conn_writes e @
              map (chunk_datagram w cBytes mid nChunks) [unat i..<Suc k]\<rparr>)"
  using k acc stop
proof (induction "k - unat i" arbitrary: i e)
  case 0
  then have ki: "k = unat i"
    by simp
  with 0 have lt: "i < nChunks"
    by (simp add: word_less_nat_alt)
  note st = loop_step_max [OF cds lt rng]
  from 0 ki have a0: "conn w (conn_writes e) (chunk_datagram w cBytes mid nChunks (unat i)) = (n, err)"
    by simp
  from 0 ki have a1: "err \<noteq> None \<or> n \<noteq> len (chunk_datagram w cBytes mid nChunks (unat i))"
    by simp
  show ?case
    unfolding st(2)
    apply (subst loop_step [OF cds lt st(1)])
    apply (simp only: Let_def a0 prod.case)
    using a1 apply (auto simp add: ki)
    done
next
  case (Suc m)
  then have ik: "unat i < k"
    by simp
  with Suc.prems(2) have lt: "i < nChunks"
    by (simp add: word_less_nat_alt)
  note st = loop_step_max [OF cds lt rng]
  note su = u8_succ [OF lt]
  let ?d = "chunk_datagram w cBytes mid nChunks (unat i)"
  let ?e = "e\<lparr>conn_writes := conn_writes e @ [?d]\<rparr>"
  from Suc.prems(3) ik have "conn w (conn_writes e @ map (chunk_datagram w cBytes mid nChunks) [unat i..<unat i]) ?d = (len ?d, None)"
    by blast
  then have a0: "conn w (conn_writes e) ?d = (len ?d, None)"
    by simp
  have m: "m = k - unat (i + 1)"
    using Suc.hyps(2) su(1) by simp
  have k1: "unat (i + 1) \<le> k"
    using ik su(1) by simp
  have shift: "conn_writes ?e @ map (chunk_datagram w cBytes mid nChunks) [unat (i + 1)..<j] =
      conn_writes e @ map (chunk_datagram w cBytes mid nChunks) [unat i..<j]" if "unat i < j" for j
    using that su(1) by (simp add: upt_conv_Cons)
  have acc': "\<forall>j. unat (i + 1) \<le> j \<and> j < k \<longrightarrow>
        conn w (conn_writes ?e @ map (chunk_datagram w cBytes mid nChunks) [unat (i + 1)..<j])
          (chunk_datagram w cBytes mid nChunks j) =
        (len (chunk_datagram w cBytes mid nChunks j), None)"
  proof (intro allI impI)
    fix j
    assume j: "unat (i + 1) \<le> j \<and> j < k"
    then have ij: "unat i < j"
      using su(1) by simp
    with j have "unat i \<le> j \<and> j < k"
      by simp
    with Suc.prems(3) have "conn w (conn_writes e @ map (chunk_datagram w cBytes mid nChunks) [unat i..<j])
          (chunk_datagram w cBytes mid nChunks j) =
        (len (chunk_datagram w cBytes mid nChunks j), None)"
      by blast
    then show "conn w (conn_writes ?e @ map (chunk_datagram w cBytes mid nChunks) [unat (i + 1)..<j])
          (chunk_datagram w cBytes mid nChunks j) =
        (len (chunk_datagram w cBytes mid nChunks j), None)"
      by (simp only: shift [OF ij])
  qed
  have stop': "conn w (conn_writes ?e @ map (chunk_datagram w cBytes mid nChunks) [unat (i + 1)..<k])
          (chunk_datagram w cBytes mid nChunks k) = (n, err)"
    using Suc.prems(4) by (simp only: shift [OF ik])
  have up: "[unat i..<Suc k] = unat i # [unat (i + 1)..<Suc k]"
    using ik su(1) by (simp add: upt_conv_Cons)
  show ?case
    unfolding st(2)
    apply (subst loop_step [OF cds lt st(1)])
    apply (simp only: Let_def a0 prod.case)
    apply (simp only: Suc.hyps(1) [OF m k1 Suc.prems(2) acc' stop' Suc.prems(5)])
    apply (simp add: up del: upt_Suc)
    done
qed

lemma loop_general:
  assumes cds: "0 < chunkDataSize w"
    and rng: "(uint nChunks - 1) * chunkDataSize w \<le> len cBytes"
    and le: "i \<le> nChunks"
  shows "\<exists>m. unat i + m \<le> unat nChunks \<and>
      snd (writeChunked_loop w cBytes mid nChunks i
             (max 0 (len cBytes - uint i * chunkDataSize w)) e) =
        e\<lparr>conn_writes := conn_writes e @
              map (chunk_datagram w cBytes mid nChunks) [unat i..<unat i + m]\<rparr> \<and>
      (\<forall>n. fst (writeChunked_loop w cBytes mid nChunks i
             (max 0 (len cBytes - uint i * chunkDataSize w)) e) = Inr (n, None) \<longrightarrow>
           unat i + m = unat nChunks \<and> len cBytes \<le> uint nChunks * chunkDataSize w \<and>
           n = len cBytes) \<and>
      (\<forall>p. fst (writeChunked_loop w cBytes mid nChunks i
             (max 0 (len cBytes - uint i * chunkDataSize w)) e) \<noteq> Inl p)"
  using le
proof (induction "unat nChunks - unat i" arbitrary: i e)
  case 0
  then have "i = nChunks"
    by (simp add: word_le_nat_alt word_unat_eq_iff)
  then show ?case
    by (simp add: loop_end max_def)
next
  case (Suc k)
  then have lt: "i < nChunks"
    by (simp add: word_less_nat_alt)
  note st = loop_step_max [OF cds lt rng]
  note su = u8_succ [OF lt]
  let ?d = "chunk_datagram w cBytes mid nChunks (unat i)"
  let ?e = "e\<lparr>conn_writes := conn_writes e @ [?d]\<rparr>"
  from lt have ui: "unat i < unat nChunks"
    by (simp add: word_less_nat_alt)
  have k: "k = unat nChunks - unat (i + 1)"
    using Suc.hyps(2) su(1) by simp
  obtain n err where a0: "conn w (conn_writes e) ?d = (n, err)"
    by (cases "conn w (conn_writes e) ?d")
  show ?case
  proof (cases "err \<noteq> None \<or> n \<noteq> len ?d")
    case True
    have "writeChunked_loop w cBytes mid nChunks i
           (max 0 (len cBytes - uint i * chunkDataSize w)) e =
         (Inr (int (unat i) * chunkDataSize w + n,
            if err \<noteq> None then err
            else Some (ErrWrited (int (unat i) * chunkDataSize w + n) (len cBytes))),
          e\<lparr>conn_writes := conn_writes e @
              map (chunk_datagram w cBytes mid nChunks) [unat i..<Suc (unat i)]\<rparr>)"
      by (rule loop_stop [OF cds rng _ ui _ _ True]) (auto simp add: a0)
    then show ?thesis
      using ui by (intro exI [of _ 1]) auto
  next
    case False
    from Suc.hyps(1) [OF k su(3), of ?e] obtain m where
      m: "unat (i + 1) + m \<le> unat nChunks"
        "snd (writeChunked_loop w cBytes mid nChunks (i + 1)
             (max 0 (len cBytes - uint (i + 1) * chunkDataSize w)) ?e) =
          ?e\<lparr>conn_writes := conn_writes ?e @
              map (chunk_datagram w cBytes mid nChunks) [unat (i + 1)..<unat (i + 1) + m]\<rparr>"
        "\<forall>n. fst (writeChunked_loop w cBytes mid nChunks (i + 1)
             (max 0 (len cBytes - uint (i + 1) * chunkDataSize w)) ?e) = Inr (n, None) \<longrightarrow>
           unat (i + 1) + m = unat nChunks \<and> len cBytes \<le> uint nChunks * chunkDataSize w \<and>
           n = len cBytes"
        "\<forall>p. fst (writeChunked_loop w cBytes mid nChunks (i + 1)
             (max 0 (len cBytes - uint (i + 1) * chunkDataSize w)) ?e) \<noteq> Inl p"
      by blast
    have eq: "writeChunked_loop w cBytes mid nChunks i
           (max 0 (len cBytes - uint i * chunkDataSize w)) e =
        writeChunked_loop w cBytes mid nChunks (i + 1)
             (max 0 (len cBytes - uint (i + 1) * chunkDataSize w)) ?e"
      unfolding st(2)
      apply (subst loop_step [OF cds lt st(1)])
      using False apply (simp add: Let_def a0)
      done
    have up: "[unat i..<Suc (unat i + m)] = unat i # [Suc (unat i)..<Suc (unat i + m)]"
      by (rule upt_conv_Cons) simp
    show ?thesis
      unfolding eq
      apply (rule exI [of _ "Suc m"])
      using m su(1) apply (simp add: up del: upt_Suc)
      done
  qed
qed

subsection \<open>\<open>writeChunked\<close> as a whole\<close>

lemma ReadFull_env: "snd (ReadFull e) = e\<lparr>rand_reads := Suc (rand_reads e)\<rparr>"
  by (simp add: ReadFull_def Let_def split: prod.splits)

lemma ReadFull_id_length: "length (snd (snd (fst (ReadFull e)))) = 8"
  by (simp add: ReadFull_def Let_def split: prod.splits)

lemma uint_count:
  assumes "0 \<le> count" and "count \<le> MaxChunkCount"
  shows "uint (word_of_int count :: byte) = count"
proof -
  from assms have "count < 2 ^ 8"
    by (simp add: MaxChunkCount_def)
  with assms(1) show ?thesis
    by (simp add: uint_word_of_int take_bit_int_eq_self)
qed

lemma unat_count:
  assumes "0 \<le> count" and "count \<le> MaxChunkCount"
  shows "unat (word_of_int count :: byte) = nat count"
  using uint_count [OF assms] by (metis nat_uint_eq)

lemma chunked_count:
  assumes "0 < chunkDataSize w" and "chunkCount w cBytes = Inr count" and "1 < count"
  shows "count = len cBytes div chunkDataSize w + 1"
    and "(count - 1) * chunkDataSize w \<le> len cBytes"
    and "len cBytes < count * chunkDataSize w"
    and "Write_send w cBytes e = writeChunked w count cBytes e"
proof -
  from assms show c: "count = len cBytes div chunkDataSize w + 1"
    by (simp add: chunkCount_pos split: if_splits)
  have "len cBytes div chunkDataSize w * chunkDataSize w \<le> len cBytes"
    using assms(1) by (metis mult.commute pos_mod_sign mult_div_mod_eq add_increasing2 order_refl less_imp_le)
  with c show "(count - 1) * chunkDataSize w \<le> len cBytes"
    by simp
  have "len cBytes mod chunkDataSize w < chunkDataSize w"
    using assms(1) by simp
  then have "len cBytes < len cBytes div chunkDataSize w * chunkDataSize w + chunkDataSize w"
    by (metis add.commute add_less_cancel_left mult.commute mult_div_mod_eq)
  with c show "len cBytes < count * chunkDataSize w"
    by (simp add: algebra_simps)
  from assms show "Write_send w cBytes e = writeChunked w count cBytes e"
    by (simp add: Write_send_def)
qed

lemma drop_header:
  "length mid = 8 \<Longrightarrow>
   drop 12 (chunk_datagram w cBytes mid nChunks j) =
     take (nat (chunkDataSize w)) (drop (j * nat (chunkDataSize w)) cBytes)"
  by (simp add: chunk_datagram_def chunkedMagicBytes_def)

lemma concat_chunks:
  assumes "length mid = 8"
  shows "concat (map (drop 12) (map (chunk_datagram w cBytes mid nChunks) [0..<m])) =
           take (m * nat (chunkDataSize w)) cBytes"
proof (induction m)
  case 0
  show ?case by simp
next
  case (Suc m)
  have "take (m * nat (chunkDataSize w) + nat (chunkDataSize w)) cBytes =
      take (m * nat (chunkDataSize w)) cBytes @
      take (nat (chunkDataSize w)) (drop (m * nat (chunkDataSize w)) cBytes)"
    by (rule take_add)
  with Suc show ?case
    by (simp add: drop_header [OF assms] add.commute)
qed

lemma writeChunked_general:
  assumes cds: "0 < chunkDataSize w" and cs: "0 \<le> chunkSize w"
    and c0: "0 \<le> count" and cm: "count \<le> MaxChunkCount"
    and rng: "(count - 1) * chunkDataSize w \<le> len cBytes"
  shows "\<exists>m. m \<le> nat count \<and>
      snd (writeChunked w count cBytes e) =
        e\<lparr>rand_reads := Suc (rand_reads e),
          conn_writes := conn_writes e @
            map (chunk_datagram w cBytes (snd (snd (fst (ReadFull e)))) (word_of_int count)) [0..<m]\<rparr> \<and>
      (\<forall>n. fst (writeChunked w count cBytes e) = Inr (n, None) \<longrightarrow>
           m = nat count \<and> len cBytes \<le> count * chunkDataSize w \<and> n = len cBytes) \<and>
      (\<forall>p. fst (writeChunked w count cBytes e) \<noteq> Inl p)"
proof -
  obtain n err mid e1 where rf: "ReadFull e = ((n, err, mid), e1)"
    by (metis prod.exhaust)
  have e1: "e1 = e\<lparr>rand_reads := Suc (rand_reads e)\<rparr>"
    using ReadFull_env [of e] rf by simp
  show ?thesis
  proof (cases "err \<noteq> None \<or> n \<noteq> 8")
    case True
    then have "writeChunked w count cBytes e = (Inr (0, Some (ErrRandReader n err)), e1)"
      using cm cs by (simp add: writeChunked_def rf)
    then show ?thesis
      by (intro exI [of _ 0]) (simp add: e1)
  next
    case False
    let ?nC = "word_of_int count :: byte"
    have wc: "writeChunked w count cBytes e =
        writeChunked_loop w cBytes mid ?nC 0 (max 0 (len cBytes - uint (0 :: byte) * chunkDataSize w)) e1"
      using cm cs False by (simp add: writeChunked_def rf)
    have rng': "(uint ?nC - 1) * chunkDataSize w \<le> len cBytes"
      using rng uint_count [OF c0 cm] by simp
    from loop_general [OF cds rng', of 0 mid e1] obtain m where
      m: "unat (0 :: byte) + m \<le> unat ?nC"
        "snd (writeChunked_loop w cBytes mid ?nC 0
             (max 0 (len cBytes - uint (0 :: byte) * chunkDataSize w)) e1) =
          e1\<lparr>conn_writes := conn_writes e1 @
              map (chunk_datagram w cBytes mid ?nC) [unat (0 :: byte)..<unat (0 :: byte) + m]\<rparr>"
        "\<forall>n. fst (writeChunked_loop w cBytes mid ?nC 0
             (max 0 (len cBytes - uint (0 :: byte) * chunkDataSize w)) e1) = Inr (n, None) \<longrightarrow>
           unat (0 :: byte) + m = unat ?nC \<and> len cBytes \<le> uint ?nC * chunkDataSize w \<and>
           n = len cBytes"
        "\<forall>p. fst (writeChunked_loop w cBytes mid ?nC 0
             (max 0 (len cBytes - uint (0 :: byte) * chunkDataSize w)) e1) \<noteq> Inl p"
      by auto
    show ?thesis
      unfolding wc
      apply (rule exI [of _ m])
      using m unat_count [OF c0 cm] uint_count [OF c0 cm] apply (simp add: e1 rf)
      done
  qed
qed

lemma writeChunked_read:
  assumes cm: "count \<le> MaxChunkCount" and cs: "0 \<le> chunkSize w"
    and rf: "fst (ReadFull e) = (8, None, mid)"
  shows "writeChunked w count cBytes e =
      writeChunked_loop w cBytes mid (word_of_int count) 0
        (max 0 (len cBytes - uint (0 :: byte) * chunkDataSize w))
        (e\<lparr>rand_reads := Suc (rand_reads e)\<rparr>)"
proof -
  have "ReadFull e = ((8, None, mid), e\<lparr>rand_reads := Suc (rand_reads e)\<rparr>)"
    using rf ReadFull_env [of e] by (metis prod.collapse)
  then show ?thesis
    using cm cs by (simp add: writeChunked_def)
qed

lemma writeChunked_stop:
  assumes cds: "0 < chunkDataSize w" and cs: "0 \<le> chunkSize w"
    and c0: "0 \<le> count" and cm: "count \<le> MaxChunkCount"
    and rng: "(count - 1) * chunkDataSize w \<le> len cBytes"
    and rf: "fst (ReadFull e) = (8, None, mid)"
    and k: "k < nat count"
    and acc: "\<forall>j<k. conn w (conn_writes e @
          map (chunk_datagram w cBytes mid (word_of_int count)) [0..<j])
          (chunk_datagram w cBytes mid (word_of_int count) j) =
        (len (chunk_datagram w cBytes mid (word_of_int count) j), None)"
    and stop: "conn w (conn_writes e @
          map (chunk_datagram w cBytes mid (word_of_int count)) [0..<k])
          (chunk_datagram w cBytes mid (word_of_int count) k) = (n, err)"
      "err \<noteq> None \<or> n \<noteq> len (chunk_datagram w cBytes mid (word_of_int count) k)"
  shows "writeChunked w count cBytes e =
         (Inr (int k * chunkDataSize w + n,
            if err \<noteq> None then err
            else Some (ErrWrited (int k * chunkDataSize w + n) (len cBytes))),
          e\<lparr>rand_reads := Suc (rand_reads e),
            conn_writes := conn_writes e @
              map (chunk_datagram w cBytes mid (word_of_int count)) [0..<Suc k]\<rparr>)"
proof -
  let ?nC = "word_of_int count :: byte"
  let ?e = "e\<lparr>rand_reads := Suc (rand_reads e)\<rparr>"
  have rng': "(uint ?nC - 1) * chunkDataSize w \<le> len cBytes"
    using rng uint_count [OF c0 cm] by simp
  have k': "unat (0 :: byte) \<le> k" "k < unat ?nC"
    using k unat_count [OF c0 cm] by simp_all
  have acc': "\<forall>j. unat (0 :: byte) \<le> j \<and> j < k \<longrightarrow>
        conn w (conn_writes ?e @ map (chunk_datagram w cBytes mid ?nC) [unat (0 :: byte)..<j])
          (chunk_datagram w cBytes mid ?nC j) =
        (len (chunk_datagram w cBytes mid ?nC j), None)"
    using acc by simp
  have stop': "conn w (conn_writes ?e @ map (chunk_datagram w cBytes mid ?nC) [unat (0 :: byte)..<k])
          (chunk_datagram w cBytes mid ?nC k) = (n, err)"
    using stop(1) by simp
  show ?thesis
    unfolding writeChunked_read [OF cm cs rf]
    apply (subst loop_stop [OF cds rng' k' acc' stop' stop(2)])
    apply (simp del: upt_Suc)
    done
qed

lemma writeChunked_accept:
  assumes cds: "0 < chunkDataSize w" and cs: "0 \<le> chunkSize w"
    and c0: "0 \<le> count" and cm: "count \<le> MaxChunkCount"
    and rng: "(count - 1) * chunkDataSize w \<le> len cBytes"
    and full: "len cBytes \<le> count * chunkDataSize w"
    and rf: "fst (ReadFull e) = (8, None, mid)"
    and acc: "\<forall>j<nat count. conn w (conn_writes e @
          map (chunk_datagram w cBytes mid (word_of_int count)) [0..<j])
          (chunk_datagram w cBytes mid (word_of_int count) j) =
        (len (chunk_datagram w cBytes mid (word_of_int count) j), None)"
  shows "writeChunked w count cBytes e =
         (Inr (len cBytes, None),
          e\<lparr>rand_reads := Suc (rand_reads e),
            conn_writes := conn_writes e @
              map (chunk_datagram w cBytes mid (word_of_int count)) [0..<nat count]\<rparr>)"
proof -
  let ?nC = "word_of_int count :: byte"
  let ?e = "e\<lparr>rand_reads := Suc (rand_reads e)\<rparr>"
  have rng': "(uint ?nC - 1) * chunkDataSize w \<le> len cBytes"
    using rng uint_count [OF c0 cm] by simp
  have acc': "\<forall>j. unat (0 :: byte) \<le> j \<and> j < unat ?nC \<longrightarrow>
        conn w (conn_writes ?e @ map (chunk_datagram w cBytes mid ?nC) [unat (0 :: byte)..<j])
          (chunk_datagram w cBytes mid ?nC j) =
        (len (chunk_datagram w cBytes mid ?nC j), None)"
    using acc unat_count [OF c0 cm] by simp
  have fin: "max 0 (len cBytes - uint ?nC * chunkDataSize w) = 0"
    using full uint_count [OF c0 cm] by simp
  show ?thesis
    unfolding writeChunked_read [OF cm cs rf]
    apply (subst loop_accept [OF cds rng' _ acc'])
     apply simp
    apply (simp only: fin)
    apply (simp add: unat_count [OF c0 cm])
    done
qed

subsection \<open>Sending\<close>

lemma Write_after_compress:
  "Write_compress cs w buf = Inr cBytes \<Longrightarrow> Write cs w buf e = Write_send w cBytes e"
  by (simp add: Write_def)

lemma sample_ReadFull: "fst (ReadFull sample_env) = (8, None, sample_id)"
  by (simp add: ReadFull_def sample_env_def sample_id_def)

lemma graylog_writer_sizes:
  "chunkSize (graylog_writer cn) = 1420" "chunkDataSize (graylog_writer cn) = 1408"
  "conn (graylog_writer cn) = cn"
  by (simp_all add: graylog_writer_def DefaultChunkSize_def)

lemma chunked_accept_all:
  assumes cds: "0 < chunkDataSize w" and cs: "0 \<le> chunkSize w"
    and cc: "chunkCount w cBytes = Inr count"
    and c1: "1 < count" and cm: "count \<le> MaxChunkCount"
    and rf: "fst (ReadFull e) = (8, None, mid)"
    and acc: "\<forall>h d. conn w h d = (len d, None)"
  shows "Write_send w cBytes e =
         (Inr (len cBytes, None),
          e\<lparr>rand_reads := Suc (rand_reads e),
            conn_writes := conn_writes e @
              map (chunk_datagram w cBytes mid (word_of_int count)) [0..<nat count]\<rparr>)"
proof -
  note cnt = chunked_count [OF cds cc c1]
  from c1 have c0: "0 \<le> count"
    by simp
  from cnt(3) have full: "len cBytes \<le> count * chunkDataSize w"
    by simp
  show ?thesis
    unfolding cnt(4)
    by (rule writeChunked_accept [OF cds cs c0 cm cnt(2) full rf]) (simp add: acc)
qed

lemma small_upt: "[0..<3] = [0, 1, 2]" "[0..<2] = [0, 1]"
  by (simp_all add: upt_rec)

lemma Write_send_general:
  assumes cds: "0 < chunkDataSize w" and cs: "0 \<le> chunkSize w"
    and cc: "chunkCount w cBytes = Inr count" and c1: "1 < count"
  shows "\<exists>m. m \<le> nat count \<and> (0 < m \<longrightarrow> count \<le> MaxChunkCount) \<and>
      conn_writes (snd (Write_send w cBytes e)) =
        conn_writes e @
          map (chunk_datagram w cBytes (snd (snd (fst (ReadFull e)))) (word_of_int count)) [0..<m] \<and>
      (\<forall>n. fst (Write_send w cBytes e) = Inr (n, None) \<longrightarrow>
           m = nat count \<and> n = len cBytes) \<and>
      (\<forall>p. fst (Write_send w cBytes e) \<noteq> Inl p)"
proof (cases "count \<le> MaxChunkCount")
  case True
  note cnt = chunked_count [OF cds cc c1]
  from c1 have c0: "0 \<le> count"
    by simp
  from writeChunked_general [OF cds cs c0 True cnt(2), of e] obtain m where
    m: "m \<le> nat count"
      "snd (writeChunked w count cBytes e) =
        e\<lparr>rand_reads := Suc (rand_reads e),
          conn_writes := conn_writes e @
            map (chunk_datagram w cBytes (snd (snd (fst (ReadFull e)))) (word_of_int count)) [0..<m]\<rparr>"
      "\<forall>n. fst (writeChunked w count cBytes e) = Inr (n, None) \<longrightarrow>
           m = nat count \<and> len cBytes \<le> count * chunkDataSize w \<and> n = len cBytes"
      "\<forall>p. fst (writeChunked w count cBytes e) \<noteq> Inl p"
    by blast
  show ?thesis
    unfolding cnt(4)
    apply (rule exI [of _ m])
    using m True apply simp
    done
next
  case False
  then have "Write_send w cBytes e = (Inr (0, Some (ErrNeedChunks count MaxChunkCount)), e)"
    using chunked_count(4) [OF cds cc c1] by (simp add: writeChunked_def)
  then show ?thesis
    by (intro exI [of _ 0]) simp
qed

lemma Write_send_stop:
  assumes "0 < chunkDataSize w" and "0 \<le> chunkSize w"
    and "chunkCount w cBytes = Inr count" and "1 < count"
    and "count \<le> MaxChunkCount"
    and "fst (ReadFull e) = (8, None, messageID)"
    and "k < nat count"
    and "\<forall>j<k. conn w (conn_writes e @
          map (chunk_datagram w cBytes messageID (word_of_int count)) [0..<j])
          (chunk_datagram w cBytes messageID (word_of_int count) j) =
        (len (chunk_datagram w cBytes messageID (word_of_int count) j), None)"
    and "conn w (conn_writes e @
          map (chunk_datagram w cBytes messageID (word_of_int count)) [0..<k])
          (chunk_datagram w cBytes messageID (word_of_int count) k) = (n, err)"
    and "err \<noteq> None \<or> n \<noteq> len (chunk_datagram w cBytes messageID (word_of_int count) k)"
  shows "Write_send w cBytes e =
         (Inr (int k * chunkDataSize w + n,
            if err \<noteq> None then err
            else Some (ErrWrited (int k * chunkDataSize w + n) (len cBytes))),
          e\<lparr>rand_reads := Suc (rand_reads e),
            conn_writes := conn_writes e @
              map (chunk_datagram w cBytes messageID (word_of_int count)) [0..<Suc k]\<rparr>)"
proof -
  note cnt = chunked_count [OF assms(1,3,4)]
  from assms(4) have c0: "0 \<le> count"
    by simp
  show ?thesis
    unfolding cnt(4)
    by (rule writeChunked_stop [OF assms(1,2) c0 assms(5) cnt(2) assms(6,7,8,9,10)])
qed

lemma refused_second_of_three:
  "Write_send (graylog_writer (refuse_call 1)) (replicate 3000 5) sample_env =
     (Inr (1408, Some (ErrExternal ''write: connection refused'')),
      sample_env\<lparr>rand_reads := 1,
        conn_writes :=
          [[0x1e, 0x0f] @ sample_id @ [0, 3] @ replicate 1408 5,
           [0x1e, 0x0f] @ sample_id @ [1, 3] @ replicate 1408 5]\<rparr>)"
proof -
  let ?w = "graylog_writer (refuse_call 1)"
  let ?p = "replicate 3000 (5 :: byte)"
  let ?F = "chunk_datagram ?w ?p sample_id (word_of_int 3)"
  have cds: "0 < chunkDataSize ?w"
    by (simp add: graylog_writer_sizes)
  have cc: "chunkCount ?w ?p = Inr 3"
    by (simp add: chunkCount_pos graylog_writer_sizes)
  have acc: "\<forall>j<1. conn ?w (conn_writes sample_env @ map ?F [0..<j]) (?F j) = (len (?F j), None)"
    by (simp add: graylog_writer_sizes refuse_call_def sample_env_def)
  have fail: "conn ?w (conn_writes sample_env @ map ?F [0..<1]) (?F 1) =
      (0, Some (ErrExternal ''write: connection refused''))"
    by (simp add: graylog_writer_sizes refuse_call_def sample_env_def)
  have "Write_send ?w ?p sample_env =
         (Inr (int 1 * chunkDataSize ?w + 0,
            if Some (ErrExternal ''write: connection refused'') \<noteq> None
            then Some (ErrExternal ''write: connection refused'')
            else Some (ErrWrited (int 1 * chunkDataSize ?w + 0) (len ?p))),
          sample_env\<lparr>rand_reads := Suc (rand_reads sample_env),
            conn_writes := conn_writes sample_env @ map ?F [0..<Suc 1]\<rparr>)"
    by (rule Write_send_stop [OF cds _ cc _ _ sample_ReadFull _ acc fail])
      (simp_all add: MaxChunkCount_def graylog_writer_sizes)
  then show ?thesis
    by (simp add: upt_rec chunk_datagram_def chunkedMagicBytes_def graylog_writer_sizes
        sample_env_def)
qed

section \<open>The claims\<close>

text \<open>
  Claim C1, at a payload of \<open>2 * 1408\<close> bytes, an exact multiple of the chunk capacity
  above the limit 1420: \<open>chunkCount\<close> is 3, not \<open>2816 / 1408 = 2\<close>, and the third
  datagram sent is the 12-byte header alone. \<open>chunkCount\<close> returns
  \<open>len(b)/chunkDataSize + 1\<close>, one more than the quotient also when the division is
  exact.
\<close>

theorem exact_multiple_gets_empty_chunk:
  "chunkCount (graylog_writer accept_all) (replicate 2816 0) = Inr 3 \<and>
   Write_send (graylog_writer accept_all) (replicate 2816 0) sample_env =
     (Inr (2816, None),
      sample_env\<lparr>rand_reads := 1,
        conn_writes :=
          [[0x1e, 0x0f] @ sample_id @ [0, 3] @ replicate 1408 0,
           [0x1e, 0x0f] @ sample_id @ [1, 3] @ replicate 1408 0,
           [0x1e, 0x0f] @ sample_id @ [2, 3]]\<rparr>)"
proof -
  have c: "chunkCount (graylog_writer accept_all) (replicate 2816 0) = Inr 3"
    by (simp add: chunkCount_pos graylog_writer_sizes)
  have a: "\<forall>h d. conn (graylog_writer accept_all) h d = (len d, None)"
    by (simp add: graylog_writer_sizes accept_all_def)
  have "Write_send (graylog_writer accept_all) (replicate 2816 0) sample_env =
         (Inr (len (replicate 2816 (0 :: byte)), None),
          sample_env\<lparr>rand_reads := Suc (rand_reads sample_env),
            conn_writes := conn_writes sample_env @
              map (chunk_datagram (graylog_writer accept_all) (replicate 2816 0) sample_id
                (word_of_int 3)) [0..<nat 3]\<rparr>)"
    by (rule chunked_accept_all [OF _ _ c _ _ sample_ReadFull a])
      (simp_all add: graylog_writer_sizes MaxChunkCount_def)
  then show ?thesis
    by (simp add: c small_upt chunk_datagram_def chunkedMagicBytes_def graylog_writer_sizes
        sample_env_def)
qed

text \<open>
  Claim C2, at a payload of \<open>128 * 1408\<close> bytes: the chunk count is 129 and the write
  fails with the error for too many chunks, where the claim expects 128 chunks and
  success. The cause is the count of claim C1.
\<close>

theorem full_128_chunks_rejected:
  "chunkCount (graylog_writer accept_all) (replicate (128 * 1408) 0) = Inr 129 \<and>
   Write_send (graylog_writer accept_all) (replicate (128 * 1408) 0) sample_env =
     (Inr (0, Some (ErrNeedChunks 129 128)), sample_env)"
proof -
  have c: "chunkCount (graylog_writer accept_all) (replicate (128 * 1408) 0) = Inr 129"
    by (simp add: chunkCount_pos graylog_writer_sizes)
  then show ?thesis
    by (simp add: Write_send_def writeChunked_def MaxChunkCount_def)
qed

text \<open>
  Claim C3, at the input of the claim: with \<open>CompressionNone\<close> and the sizes 1420 and
  1408, \<open>Write\<close> of the eleven bytes of "hello world" hands the connection one datagram,
  the empty one, and returns \<open>(0, nil)\<close>. The bytes went into the buffer that
  \<open>writeCloser\<close> embeds, a copy of \<open>cBuf\<close>; \<open>cBuf\<close> itself stays empty. The claim
  expects the eleven bytes in the datagram and \<open>(11, nil)\<close>.
\<close>

theorem Write_none_sends_nothing:
  "Write cs ((graylog_writer accept_all)\<lparr>compressionType := CompressionNone\<rparr>)
     (map of_char ''hello world'') sample_env =
   (Inr (0, None), sample_env\<lparr>conn_writes := [[]]\<rparr>)"
  by (simp add: Write_def Write_compress_def Write_send_def chunkCount_def conn_Write_def
      graylog_writer_def DefaultChunkSize_def accept_all_def sample_env_def)

text \<open>
  Claim C4. On the chunked path (a positive \<open>chunkDataSize\<close>, a \<open>chunkSize\<close> that is
  not negative, a chunk count above 1), whatever the connection and the random source answer, the datagrams the write hands
  to the connection, in the order of sending, carry after their 12 header bytes the
  successive parts of the compressed payload: concatenated, the parts are the
  beginning of the payload, \<open>chunkDataSize\<close> bytes per datagram. When the write returns
  a nil error there are \<open>count\<close> datagrams and the parts concatenate to the whole
  payload. The write does return \<open>(len(cBytes), nil)\<close> when the count is at most
  128, the random source fills the message ID and the connection accepts every
  datagram whole.
\<close>

theorem chunk_payloads_reassemble:
  assumes "0 < chunkDataSize w" and "0 \<le> chunkSize w"
    and "chunkCount w cBytes = Inr count" and "1 < count"
  shows "\<exists>ds. conn_writes (snd (Write_send w cBytes e)) = conn_writes e @ ds \<and>
      concat (map (drop 12) ds) = take (length ds * nat (chunkDataSize w)) cBytes \<and>
      (\<forall>n. fst (Write_send w cBytes e) = Inr (n, None) \<longrightarrow>
           length ds = nat count \<and> concat (map (drop 12) ds) = cBytes) \<and>
      (count \<le> MaxChunkCount \<and> fst (fst (ReadFull e)) = 8 \<and>
       fst (snd (fst (ReadFull e))) = None \<and> (\<forall>h d. conn w h d = (len d, None)) \<longrightarrow>
         fst (Write_send w cBytes e) = Inr (len cBytes, None))"
proof -
  let ?mid = "snd (snd (fst (ReadFull e)))"
  let ?F = "chunk_datagram w cBytes ?mid (word_of_int count)"
  note cnt = chunked_count [OF assms(1,3,4)]
  from Write_send_general [OF assms, of e] obtain m where
    m: "m \<le> nat count"
      "conn_writes (snd (Write_send w cBytes e)) = conn_writes e @ map ?F [0..<m]"
      "\<forall>n. fst (Write_send w cBytes e) = Inr (n, None) \<longrightarrow> m = nat count \<and> n = len cBytes"
    by blast
  have cat: "concat (map (drop 12) (map ?F [0..<k])) = take (k * nat (chunkDataSize w)) cBytes" for k
    by (rule concat_chunks [OF ReadFull_id_length])
  have "nat (len cBytes) \<le> nat (count * chunkDataSize w)"
    using cnt(3) by simp
  also have "nat (count * chunkDataSize w) = nat count * nat (chunkDataSize w)"
    using assms(4) by (simp add: nat_mult_distrib)
  finally have "length cBytes \<le> nat count * nat (chunkDataSize w)"
    by simp
  then have whole: "take (nat count * nat (chunkDataSize w)) cBytes = cBytes"
    by simp
  have ok: "fst (Write_send w cBytes e) = Inr (len cBytes, None)"
    if "count \<le> MaxChunkCount" and "fst (fst (ReadFull e)) = 8"
      and "fst (snd (fst (ReadFull e))) = None" and "\<forall>h d. conn w h d = (len d, None)"
  proof -
    from that(2,3) have rf: "fst (ReadFull e) = (8, None, ?mid)"
      by (metis prod.collapse)
    show ?thesis
      by (simp add: chunked_accept_all [OF assms that(1) rf that(4)])
  qed
  have succ: "length (map ?F [0..<m]) = nat count \<and> concat (map (drop 12) (map ?F [0..<m])) = cBytes"
    if "fst (Write_send w cBytes e) = Inr (n, None)" for n
  proof -
    from m(3) that have "m = nat count"
      by blast
    with cat [of m] whole show ?thesis
      by simp
  qed
  have pre: "concat (map (drop 12) (map ?F [0..<m])) =
      take (length (map ?F [0..<m]) * nat (chunkDataSize w)) cBytes"
    using cat [of m] by simp
  show ?thesis
  proof (intro exI [of _ "map ?F [0..<m]"] conjI allI impI)
    show "conn_writes (snd (Write_send w cBytes e)) = conn_writes e @ map ?F [0..<m]"
      by (rule m(2))
    show "concat (map (drop 12) (map ?F [0..<m])) =
        take (length (map ?F [0..<m]) * nat (chunkDataSize w)) cBytes"
      by (rule pre)
  next
    fix n
    assume "fst (Write_send w cBytes e) = Inr (n, None)"
    from succ [OF this] show "length (map ?F [0..<m]) = nat count"
      by (rule conjunct1)
  next
    fix n
    assume "fst (Write_send w cBytes e) = Inr (n, None)"
    from succ [OF this] show "concat (map (drop 12) (map ?F [0..<m])) = cBytes"
      by (rule conjunct2)
  next
    assume "count \<le> MaxChunkCount \<and> fst (fst (ReadFull e)) = 8 \<and>
       fst (snd (fst (ReadFull e))) = None \<and> (\<forall>h d. conn w h d = (len d, None))"
    then show "fst (Write_send w cBytes e) = Inr (len cBytes, None)"
      using ok by blast
  qed
qed

theorem chunk_payloads_reassemble_witness:
  "0 < chunkDataSize (graylog_writer accept_all) \<and>
   0 \<le> chunkSize (graylog_writer accept_all) \<and>
   chunkCount (graylog_writer accept_all) (replicate 3000 5) = Inr 3 \<and>
   (1 :: int) < 3 \<and> 3 \<le> MaxChunkCount \<and>
   fst (fst (ReadFull sample_env)) = 8 \<and> fst (snd (fst (ReadFull sample_env))) = None \<and>
   (\<forall>h d. conn (graylog_writer accept_all) h d = (len d, None)) \<and>
   fst (Write_send (graylog_writer accept_all) (replicate 3000 5) sample_env) = Inr (3000, None) \<and>
   (\<exists>ds. conn_writes (snd (Write_send (graylog_writer accept_all) (replicate 3000 5) sample_env)) =
           conn_writes sample_env @ ds \<and>
         length ds = 3 \<and> concat (map (drop 12) ds) = replicate 3000 5)"
proof -
  let ?w = "graylog_writer accept_all"
  let ?p = "replicate 3000 (5 :: byte)"
  have cds: "0 < chunkDataSize ?w"
    by (simp add: graylog_writer_sizes)
  have cs: "0 \<le> chunkSize ?w"
    by (simp add: graylog_writer_sizes)
  have cc: "chunkCount ?w ?p = Inr 3"
    by (simp add: chunkCount_pos graylog_writer_sizes)
  have c1: "(1 :: int) < 3"
    by simp
  have cm: "3 \<le> MaxChunkCount"
    by (simp add: MaxChunkCount_def)
  have r1: "fst (fst (ReadFull sample_env)) = 8"
    and r2: "fst (snd (fst (ReadFull sample_env))) = None"
    by (simp_all add: sample_ReadFull)
  have acc: "\<forall>h d. conn ?w h d = (len d, None)"
    by (simp add: graylog_writer_sizes accept_all_def)
  from chunk_payloads_reassemble [OF cds cs cc c1, of sample_env] obtain ds where
    ds: "conn_writes (snd (Write_send ?w ?p sample_env)) = conn_writes sample_env @ ds"
      "\<forall>n. fst (Write_send ?w ?p sample_env) = Inr (n, None) \<longrightarrow>
           length ds = nat 3 \<and> concat (map (drop 12) ds) = ?p"
      "3 \<le> MaxChunkCount \<and> fst (fst (ReadFull sample_env)) = 8 \<and>
       fst (snd (fst (ReadFull sample_env))) = None \<and> (\<forall>h d. conn ?w h d = (len d, None)) \<longrightarrow>
         fst (Write_send ?w ?p sample_env) = Inr (len ?p, None)"
    by blast
  from ds(3) cm r1 r2 acc have ok: "fst (Write_send ?w ?p sample_env) = Inr (3000, None)"
    by simp
  with ds(2) have "length ds = 3 \<and> concat (map (drop 12) ds) = ?p"
    by simp
  with ds(1) have "\<exists>ds. conn_writes (snd (Write_send ?w ?p sample_env)) = conn_writes sample_env @ ds \<and>
         length ds = 3 \<and> concat (map (drop 12) ds) = ?p"
    by blast
  with cds cs cc c1 cm r1 r2 acc ok show ?thesis
    by blast
qed

text \<open>
  Claim C5. \<open>Write\<close> hands every compressed payload to the second half of its body.
  There, a payload no longer than \<open>chunkSize\<close> goes to the connection as one datagram
  that is the payload itself, with no header, and the result is the connection's
  answer. When \<open>chunkDataSize\<close> is positive and at most \<open>chunkSize + 1\<close> (the writer
  of \<open>New\<close> has 1420 and 1408), a payload of \<open>chunkSize + 1\<close> bytes has a chunk count
  above 1 and goes to \<open>writeChunked\<close>.
\<close>

theorem unchunked_up_to_the_limit:
  "(\<forall>cs buf. Write_compress cs w buf = Inr cBytes \<longrightarrow>
      Write cs w buf e = Write_send w cBytes e) \<and>
   (len cBytes \<le> chunkSize w \<longrightarrow>
      Write_send w cBytes e =
        (case conn w (conn_writes e) cBytes of
           (n, err) \<Rightarrow>
             Inr (n, if err \<noteq> None then err
                     else if n \<noteq> len cBytes then Some (ErrWrited n (len cBytes))
                     else None),
         e\<lparr>conn_writes := conn_writes e @ [cBytes]\<rparr>)) \<and>
   (0 < chunkDataSize w \<and> chunkDataSize w \<le> chunkSize w + 1 \<and>
    len cBytes = chunkSize w + 1 \<longrightarrow>
      1 < len cBytes div chunkDataSize w + 1 \<and>
      Write_send w cBytes e =
        writeChunked w (len cBytes div chunkDataSize w + 1) cBytes e)"
proof (intro conjI allI impI)
  fix cs buf
  assume "Write_compress cs w buf = Inr cBytes"
  then show "Write cs w buf e = Write_send w cBytes e"
    by (rule Write_after_compress)
next
  assume "len cBytes \<le> chunkSize w"
  then show "Write_send w cBytes e =
        (case conn w (conn_writes e) cBytes of
           (n, err) \<Rightarrow>
             Inr (n, if err \<noteq> None then err
                     else if n \<noteq> len cBytes then Some (ErrWrited n (len cBytes))
                     else None),
         e\<lparr>conn_writes := conn_writes e @ [cBytes]\<rparr>)"
    by (simp add: Write_send_def chunkCount_def conn_Write_def split: prod.splits)
next
  assume a: "0 < chunkDataSize w \<and> chunkDataSize w \<le> chunkSize w + 1 \<and>
    len cBytes = chunkSize w + 1"
  then have p: "0 < chunkDataSize w" and le: "chunkDataSize w \<le> len cBytes"
    by simp_all
  have "0 < len cBytes div chunkDataSize w"
    by (rule iffD2 [OF pos_imp_zdiv_pos_iff [OF p] le])
  then show c: "1 < len cBytes div chunkDataSize w + 1"
    by simp
  from a have "\<not> len cBytes \<le> chunkSize w"
    by simp
  with p c show "Write_send w cBytes e =
        writeChunked w (len cBytes div chunkDataSize w + 1) cBytes e"
    by (simp add: Write_send_def chunkCount_pos)
qed

theorem unchunked_up_to_the_limit_witness:
  "(\<forall>cs. Write_compress cs ((graylog_writer accept_all)\<lparr>compressionType := CompressionNone\<rparr>)
        [104, 105] = Inr [] \<and>
      Write cs ((graylog_writer accept_all)\<lparr>compressionType := CompressionNone\<rparr>)
        [104, 105] sample_env =
      Write_send ((graylog_writer accept_all)\<lparr>compressionType := CompressionNone\<rparr>)
        [] sample_env) \<and>
   (len (replicate 1420 (7 :: byte)) \<le> chunkSize (graylog_writer accept_all) \<and>
    Write_send (graylog_writer accept_all) (replicate 1420 7) sample_env =
      (Inr (1420, None), sample_env\<lparr>conn_writes := [replicate 1420 7]\<rparr>)) \<and>
   (0 < chunkDataSize (graylog_writer accept_all) \<and>
    chunkDataSize (graylog_writer accept_all) \<le> chunkSize (graylog_writer accept_all) + 1 \<and>
    len (replicate 1421 (7 :: byte)) = chunkSize (graylog_writer accept_all) + 1 \<and>
    Write_send (graylog_writer accept_all) (replicate 1421 7) sample_env =
      writeChunked (graylog_writer accept_all) 2 (replicate 1421 7) sample_env)"
proof (intro conjI allI)
  fix cs
  show c: "Write_compress cs ((graylog_writer accept_all)\<lparr>compressionType := CompressionNone\<rparr>)
        [104, 105] = Inr []"
    by (simp add: Write_compress_None)
  from unchunked_up_to_the_limit
    [of "(graylog_writer accept_all)\<lparr>compressionType := CompressionNone\<rparr>" "[]" sample_env] c
  show "Write cs ((graylog_writer accept_all)\<lparr>compressionType := CompressionNone\<rparr>)
        [104, 105] sample_env =
      Write_send ((graylog_writer accept_all)\<lparr>compressionType := CompressionNone\<rparr>)
        [] sample_env"
    by blast
next
  show l: "len (replicate 1420 (7 :: byte)) \<le> chunkSize (graylog_writer accept_all)"
    by (simp add: graylog_writer_sizes)
  from unchunked_up_to_the_limit [of "graylog_writer accept_all" "replicate 1420 7" sample_env] l
  have "Write_send (graylog_writer accept_all) (replicate 1420 7) sample_env =
        (case conn (graylog_writer accept_all) (conn_writes sample_env) (replicate 1420 7) of
           (n, err) \<Rightarrow>
             Inr (n, if err \<noteq> None then err
                     else if n \<noteq> len (replicate 1420 (7 :: byte))
                       then Some (ErrWrited n (len (replicate 1420 (7 :: byte))))
                     else None),
         sample_env\<lparr>conn_writes := conn_writes sample_env @ [replicate 1420 7]\<rparr>)"
    by blast
  then show "Write_send (graylog_writer accept_all) (replicate 1420 7) sample_env =
      (Inr (1420, None), sample_env\<lparr>conn_writes := [replicate 1420 7]\<rparr>)"
    by (simp add: graylog_writer_sizes accept_all_def sample_env_def)
next
  show a: "0 < chunkDataSize (graylog_writer accept_all)"
    by (simp add: graylog_writer_sizes)
  show b: "chunkDataSize (graylog_writer accept_all) \<le> chunkSize (graylog_writer accept_all) + 1"
    by (simp add: graylog_writer_sizes)
  show c: "len (replicate 1421 (7 :: byte)) = chunkSize (graylog_writer accept_all) + 1"
    by (simp add: graylog_writer_sizes)
  from unchunked_up_to_the_limit [of "graylog_writer accept_all" "replicate 1421 7" sample_env] a b c
  have "Write_send (graylog_writer accept_all) (replicate 1421 7) sample_env =
      writeChunked (graylog_writer accept_all)
        (len (replicate 1421 (7 :: byte)) div chunkDataSize (graylog_writer accept_all) + 1)
        (replicate 1421 7) sample_env"
    by blast
  then show "Write_send (graylog_writer accept_all) (replicate 1421 7) sample_env =
      writeChunked (graylog_writer accept_all) 2 (replicate 1421 7) sample_env"
    by (simp add: graylog_writer_sizes)
qed

text \<open>
  Claim C6, amended. On the chunked path (sizes and count as for claim C4, the count
  at most 128, the message ID read), when the connection accepts the first \<open>k\<close>
  datagrams whole and the send of the next one fails, the write fails at once: the
  failed datagram is the last one handed over. A send fails when the connection
  answers it with an error, or with no error and a count \<open>n\<close> that is not the length
  of the datagram. The count returned is \<open>k * chunkDataSize + n\<close> in both cases; the
  error is the connection's, or for the short count the error that carries this count
  and the length of the payload. The first summand is the number of payload bytes
  carried by the \<open>k\<close> datagrams accepted, their headers not counted.
\<close>

theorem failed_send_reports_payload_bytes:
  assumes "0 < chunkDataSize w" and "0 \<le> chunkSize w"
    and "chunkCount w cBytes = Inr count" and "1 < count"
    and "count \<le> MaxChunkCount"
    and "fst (ReadFull e) = (8, None, messageID)"
    and "k < nat count"
    and "\<forall>j<k. conn w (conn_writes e @
          map (chunk_datagram w cBytes messageID (word_of_int count)) [0..<j])
          (chunk_datagram w cBytes messageID (word_of_int count) j) =
        (len (chunk_datagram w cBytes messageID (word_of_int count) j), None)"
    and "conn w (conn_writes e @
          map (chunk_datagram w cBytes messageID (word_of_int count)) [0..<k])
          (chunk_datagram w cBytes messageID (word_of_int count) k) = (n, err)"
    and "err \<noteq> None \<or> n \<noteq> len (chunk_datagram w cBytes messageID (word_of_int count) k)"
  shows "Write_send w cBytes e =
         (Inr (int k * chunkDataSize w + n,
            if err \<noteq> None then err
            else Some (ErrWrited (int k * chunkDataSize w + n) (len cBytes))),
          e\<lparr>rand_reads := Suc (rand_reads e),
            conn_writes := conn_writes e @
              map (chunk_datagram w cBytes messageID (word_of_int count)) [0..<Suc k]\<rparr>) \<and>
       int k * chunkDataSize w =
         len (concat (map (drop 12)
           (map (chunk_datagram w cBytes messageID (word_of_int count)) [0..<k])))"
proof -
  note cnt = chunked_count [OF assms(1,3,4)]
  note res = Write_send_stop [OF assms]
  have "length messageID = 8"
    using ReadFull_id_length [of e] assms(6) by simp
  then have cat: "concat (map (drop 12)
      (map (chunk_datagram w cBytes messageID (word_of_int count)) [0..<k])) =
      take (k * nat (chunkDataSize w)) cBytes"
    by (rule concat_chunks)
  from assms(7) have "int k \<le> count - 1"
    by simp
  then have "int k * chunkDataSize w \<le> (count - 1) * chunkDataSize w"
    using assms(1) by (simp add: mult_right_mono)
  with cnt(2) have "int k * chunkDataSize w \<le> len cBytes"
    by simp
  moreover have "int (k * nat (chunkDataSize w)) = int k * chunkDataSize w"
    using assms(1) by simp
  ultimately have "k * nat (chunkDataSize w) \<le> length cBytes"
    by linarith
  then have l: "int k * chunkDataSize w = len (take (k * nat (chunkDataSize w)) cBytes)"
    using assms(1) by (simp add: min_def)
  show ?thesis
    unfolding cat
    using res l by (rule conjI)
qed

theorem failed_send_reports_payload_bytes_witness:
  "0 < chunkDataSize (graylog_writer (refuse_call 1)) \<and>
   0 \<le> chunkSize (graylog_writer (refuse_call 1)) \<and>
   chunkCount (graylog_writer (refuse_call 1)) (replicate 3000 5) = Inr 3 \<and>
   (1 :: int) < 3 \<and> 3 \<le> MaxChunkCount \<and>
   fst (ReadFull sample_env) = (8, None, sample_id) \<and> 1 < nat 3 \<and>
   refuse_call 1 [] (chunk_datagram (graylog_writer (refuse_call 1)) (replicate 3000 5)
       sample_id (word_of_int 3) 0) =
     (1420, None) \<and>
   refuse_call 1 [chunk_datagram (graylog_writer (refuse_call 1)) (replicate 3000 5)
       sample_id (word_of_int 3) 0]
     (chunk_datagram (graylog_writer (refuse_call 1)) (replicate 3000 5)
       sample_id (word_of_int 3) 1) =
     (0, Some (ErrExternal ''write: connection refused'')) \<and>
   fst (Write_send (graylog_writer (refuse_call 1)) (replicate 3000 5) sample_env) =
     Inr (1408, Some (ErrExternal ''write: connection refused'')) \<and>
   length (conn_writes (snd (Write_send (graylog_writer (refuse_call 1)) (replicate 3000 5)
     sample_env))) = 2 \<and>
   (1408 :: int) = len (concat (map (drop 12)
     [chunk_datagram (graylog_writer (refuse_call 1)) (replicate 3000 5)
        sample_id (word_of_int 3) 0])) \<and>
   short_call 1 [] (chunk_datagram (graylog_writer (short_call 1)) (replicate 3000 5)
       sample_id (word_of_int 3) 0) =
     (1420, None) \<and>
   short_call 1 [chunk_datagram (graylog_writer (short_call 1)) (replicate 3000 5)
       sample_id (word_of_int 3) 0]
     (chunk_datagram (graylog_writer (short_call 1)) (replicate 3000 5)
       sample_id (word_of_int 3) 1) =
     (1419, None) \<and>
   len (chunk_datagram (graylog_writer (short_call 1)) (replicate 3000 5)
       sample_id (word_of_int 3) 1) = 1420 \<and>
   fst (Write_send (graylog_writer (short_call 1)) (replicate 3000 5) sample_env) =
     Inr (2827, Some (ErrWrited 2827 3000)) \<and>
   length (conn_writes (snd (Write_send (graylog_writer (short_call 1)) (replicate 3000 5)
     sample_env))) = 2"
proof -
  let ?p = "replicate 3000 (5 :: byte)"
  have cm: "3 \<le> MaxChunkCount"
    by (simp add: MaxChunkCount_def)
  have c1: "(1 :: int) < 3"
    by simp
  have k: "1 < nat 3"
    by simp
  have refused: "0 < chunkDataSize (graylog_writer (refuse_call 1)) \<and>
      0 \<le> chunkSize (graylog_writer (refuse_call 1)) \<and>
      chunkCount (graylog_writer (refuse_call 1)) ?p = Inr 3 \<and>
      refuse_call 1 [] (chunk_datagram (graylog_writer (refuse_call 1)) ?p
        sample_id (word_of_int 3) 0) = (1420, None) \<and>
      refuse_call 1 [chunk_datagram (graylog_writer (refuse_call 1)) ?p sample_id (word_of_int 3) 0]
        (chunk_datagram (graylog_writer (refuse_call 1)) ?p sample_id (word_of_int 3) 1) =
        (0, Some (ErrExternal ''write: connection refused'')) \<and>
      fst (Write_send (graylog_writer (refuse_call 1)) ?p sample_env) =
        Inr (1408, Some (ErrExternal ''write: connection refused'')) \<and>
      length (conn_writes (snd (Write_send (graylog_writer (refuse_call 1)) ?p sample_env))) = 2 \<and>
      (1408 :: int) = len (concat (map (drop 12)
        [chunk_datagram (graylog_writer (refuse_call 1)) ?p sample_id (word_of_int 3) 0]))"
  proof -
    let ?w = "graylog_writer (refuse_call 1)"
    let ?F = "chunk_datagram ?w ?p sample_id (word_of_int 3)"
    have cds: "0 < chunkDataSize ?w"
      by (simp add: graylog_writer_sizes)
    have cs: "0 \<le> chunkSize ?w"
      by (simp add: graylog_writer_sizes)
    have cc: "chunkCount ?w ?p = Inr 3"
      by (simp add: chunkCount_pos graylog_writer_sizes)
    have a0: "refuse_call 1 [] (?F 0) = (1420, None)"
      by (simp add: refuse_call_def chunk_datagram_def chunkedMagicBytes_def sample_id_def
          graylog_writer_sizes)
    have acc: "\<forall>j<1. conn ?w (conn_writes sample_env @ map ?F [0..<j]) (?F j) = (len (?F j), None)"
      by (simp add: graylog_writer_sizes refuse_call_def sample_env_def)
    have f1: "refuse_call 1 [?F 0] (?F 1) = (0, Some (ErrExternal ''write: connection refused''))"
      by (simp add: refuse_call_def)
    have fail: "conn ?w (conn_writes sample_env @ map ?F [0..<1]) (?F 1) =
        (0, Some (ErrExternal ''write: connection refused''))"
      by (simp add: graylog_writer_sizes refuse_call_def sample_env_def)
    have st: "Some (ErrExternal ''write: connection refused'') \<noteq> None \<or> 0 \<noteq> len (?F 1)"
      by simp
    from failed_send_reports_payload_bytes [OF cds cs cc c1 cm sample_ReadFull k acc fail st]
    have r: "Write_send ?w ?p sample_env =
           (Inr (int 1 * chunkDataSize ?w + 0,
              if Some (ErrExternal ''write: connection refused'') \<noteq> None
              then Some (ErrExternal ''write: connection refused'')
              else Some (ErrWrited (int 1 * chunkDataSize ?w + 0) (len ?p))),
            sample_env\<lparr>rand_reads := Suc (rand_reads sample_env),
              conn_writes := conn_writes sample_env @ map ?F [0..<Suc 1]\<rparr>)"
      and l: "int 1 * chunkDataSize ?w = len (concat (map (drop 12) (map ?F [0..<1])))"
      by blast+
    from r have r1: "fst (Write_send ?w ?p sample_env) =
        Inr (1408, Some (ErrExternal ''write: connection refused''))"
      by (simp add: graylog_writer_sizes)
    from r have r2: "length (conn_writes (snd (Write_send ?w ?p sample_env))) = 2"
      by (simp add: sample_env_def)
    from l have l1: "(1408 :: int) = len (concat (map (drop 12) [?F 0]))"
      by (simp add: graylog_writer_sizes)
    from cds cs cc a0 f1 r1 r2 l1 show ?thesis
      by blast
  qed
  have short: "short_call 1 [] (chunk_datagram (graylog_writer (short_call 1)) ?p
        sample_id (word_of_int 3) 0) = (1420, None) \<and>
      short_call 1 [chunk_datagram (graylog_writer (short_call 1)) ?p sample_id (word_of_int 3) 0]
        (chunk_datagram (graylog_writer (short_call 1)) ?p sample_id (word_of_int 3) 1) =
        (1419, None) \<and>
      len (chunk_datagram (graylog_writer (short_call 1)) ?p sample_id (word_of_int 3) 1) = 1420 \<and>
      fst (Write_send (graylog_writer (short_call 1)) ?p sample_env) =
        Inr (2827, Some (ErrWrited 2827 3000)) \<and>
      length (conn_writes (snd (Write_send (graylog_writer (short_call 1)) ?p sample_env))) = 2"
  proof -
    let ?w = "graylog_writer (short_call 1)"
    let ?F = "chunk_datagram ?w ?p sample_id (word_of_int 3)"
    have cds: "0 < chunkDataSize ?w"
      by (simp add: graylog_writer_sizes)
    have cs: "0 \<le> chunkSize ?w"
      by (simp add: graylog_writer_sizes)
    have cc: "chunkCount ?w ?p = Inr 3"
      by (simp add: chunkCount_pos graylog_writer_sizes)
    have l1: "len (?F 1) = 1420"
      by (simp add: chunk_datagram_def chunkedMagicBytes_def sample_id_def graylog_writer_sizes)
    have a0: "short_call 1 [] (?F 0) = (1420, None)"
      by (simp add: short_call_def chunk_datagram_def chunkedMagicBytes_def sample_id_def
          graylog_writer_sizes)
    have acc: "\<forall>j<1. conn ?w (conn_writes sample_env @ map ?F [0..<j]) (?F j) = (len (?F j), None)"
      by (simp add: graylog_writer_sizes short_call_def sample_env_def)
    have f1: "short_call 1 [?F 0] (?F 1) = (1419, None)"
      using l1 by (simp add: short_call_def)
    have fail: "conn ?w (conn_writes sample_env @ map ?F [0..<1]) (?F 1) = (1419, None)"
      using f1 by (simp add: graylog_writer_sizes sample_env_def)
    have st: "(None :: error option) \<noteq> None \<or> 1419 \<noteq> len (?F 1)"
      using l1 by simp
    from failed_send_reports_payload_bytes [OF cds cs cc c1 cm sample_ReadFull k acc fail st]
    have r: "Write_send ?w ?p sample_env =
           (Inr (int 1 * chunkDataSize ?w + 1419,
              if (None :: error option) \<noteq> None then None
              else Some (ErrWrited (int 1 * chunkDataSize ?w + 1419) (len ?p))),
            sample_env\<lparr>rand_reads := Suc (rand_reads sample_env),
              conn_writes := conn_writes sample_env @ map ?F [0..<Suc 1]\<rparr>)"
      by blast
    from r have r1: "fst (Write_send ?w ?p sample_env) = Inr (2827, Some (ErrWrited 2827 3000))"
      by (simp add: graylog_writer_sizes)
    from r have r2: "length (conn_writes (snd (Write_send ?w ?p sample_env))) = 2"
      by (simp add: sample_env_def)
    from a0 f1 l1 r1 r2 show ?thesis
      by blast
  qed
  from refused short c1 cm sample_ReadFull k show ?thesis
    by blast
qed

text \<open>
  Claim C6 as stated, refuted. Three chunks, the connection refuses the second and
  reports 0 bytes written. The first chunk, header and payload, is a datagram of 1420
  bytes, all of them sent; the count returned is 1408.
\<close>

theorem failed_send_count_counterexample:
  "fst (Write_send (graylog_writer (refuse_call 1)) (replicate 3000 5) sample_env) =
     Inr (1408, Some (ErrExternal ''write: connection refused'')) \<and>
   conn_writes (snd (Write_send (graylog_writer (refuse_call 1)) (replicate 3000 5) sample_env)) =
     [[0x1e, 0x0f] @ sample_id @ [0, 3] @ replicate 1408 5,
      [0x1e, 0x0f] @ sample_id @ [1, 3] @ replicate 1408 5] \<and>
   len ([0x1e, 0x0f] @ sample_id @ [0, 3] @ replicate 1408 (5 :: byte)) = 1420 \<and>
   fst (Write_send (graylog_writer (refuse_call 1)) (replicate 3000 5) sample_env) \<noteq>
     Inr (len ([0x1e, 0x0f] @ sample_id @ [0, 3] @ replicate 1408 (5 :: byte)),
          Some (ErrExternal ''write: connection refused''))"
  unfolding refused_second_of_three by (simp add: sample_id_def)

text \<open>
  Claim C7. When the chunk count computed for the compressed payload exceeds
  \<open>MaxChunkCount\<close>, the write returns 0 and the error that carries the count and the
  maximum 128, and the environment is the one it started from: no datagram was handed
  to the connection and no read was made from the random source.
\<close>

theorem too_many_chunks_is_preflight:
  assumes "chunkCount w cBytes = Inr count" and "count > MaxChunkCount"
  shows "Write_send w cBytes e = (Inr (0, Some (ErrNeedChunks count 128)), e)"
  using assms by (simp add: Write_send_def writeChunked_def MaxChunkCount_def)

theorem too_many_chunks_is_preflight_witness:
  "chunkCount (graylog_writer accept_all) (replicate 200000 0) = Inr 143 \<and>
   (143 :: int) > MaxChunkCount \<and>
   Write_send (graylog_writer accept_all) (replicate 200000 0) sample_env =
     (Inr (0, Some (ErrNeedChunks 143 128)), sample_env)"
proof -
  have c: "chunkCount (graylog_writer accept_all) (replicate 200000 0) = Inr 143"
    by (simp add: chunkCount_pos graylog_writer_def DefaultChunkSize_def)
  have m: "(143 :: int) > MaxChunkCount"
    by (simp add: MaxChunkCount_def)
  from too_many_chunks_is_preflight [OF c m] c m show ?thesis
    by simp
qed

text \<open>
  Claim C8. On the chunked path (sizes and count as for claim C4), whatever the
  connection answers, the \<open>k\<close>-th datagram
  handed to it (from 0) is the two bytes \<open>0x1e 0x0f\<close>, the eight bytes read from the
  random source by this call, the byte \<open>k\<close>, the byte \<open>count\<close>, and then the
  \<open>chunkDataSize\<close> bytes of the compressed payload from \<open>k * chunkDataSize\<close> (fewer at
  the end). The two bytes hold \<open>k\<close> and \<open>count\<close> without wrap-around.
\<close>

theorem chunk_datagram_layout:
  assumes "0 < chunkDataSize w" and "0 \<le> chunkSize w"
    and "chunkCount w cBytes = Inr count" and "1 < count"
  shows "\<exists>ds. conn_writes (snd (Write_send w cBytes e)) = conn_writes e @ ds \<and>
      length ds \<le> nat count \<and>
      length (snd (snd (fst (ReadFull e)))) = 8 \<and>
      (\<forall>k<length ds.
         ds ! k = [0x1e, 0x0f] @ snd (snd (fst (ReadFull e))) @ [of_nat k, word_of_int count] @
                    take (nat (chunkDataSize w)) (drop (k * nat (chunkDataSize w)) cBytes) \<and>
         unat (of_nat k :: byte) = k \<and> uint (word_of_int count :: byte) = count)"
proof -
  let ?mid = "snd (snd (fst (ReadFull e)))"
  let ?F = "chunk_datagram w cBytes ?mid (word_of_int count)"
  from Write_send_general [OF assms, of e] obtain m where
    m: "m \<le> nat count" "0 < m \<longrightarrow> count \<le> MaxChunkCount"
      "conn_writes (snd (Write_send w cBytes e)) = conn_writes e @ map ?F [0..<m]"
    by blast
  have lay: "map ?F [0..<m] ! k =
        [0x1e, 0x0f] @ ?mid @ [of_nat k, word_of_int count] @
          take (nat (chunkDataSize w)) (drop (k * nat (chunkDataSize w)) cBytes) \<and>
      unat (of_nat k :: byte) = k \<and> uint (word_of_int count :: byte) = count"
    if "k < length (map ?F [0..<m])" for k
  proof -
    from that have km: "k < m"
      by simp
    with m(2) have cm: "count \<le> MaxChunkCount"
      by simp
    from assms(4) have c0: "0 \<le> count"
      by simp
    from km m(1) cm c0 have "k < 2 ^ 8"
      by (simp add: MaxChunkCount_def)
    then have "unat (of_nat k :: byte) = k"
      by (simp add: unat_of_nat)
    with km uint_count [OF c0 cm] show ?thesis
      by (simp add: chunk_datagram_def chunkedMagicBytes_def)
  qed
  show ?thesis
  proof (intro exI [of _ "map ?F [0..<m]"] conjI allI impI)
    show "conn_writes (snd (Write_send w cBytes e)) = conn_writes e @ map ?F [0..<m]"
      by (rule m(3))
    show "length (map ?F [0..<m]) \<le> nat count"
      using m(1) by simp
    show "length ?mid = 8"
      by (rule ReadFull_id_length)
  next
    fix k
    assume "k < length (map ?F [0..<m])"
    from lay [OF this] show "map ?F [0..<m] ! k =
        [0x1e, 0x0f] @ ?mid @ [of_nat k, word_of_int count] @
          take (nat (chunkDataSize w)) (drop (k * nat (chunkDataSize w)) cBytes)"
      by (rule conjunct1)
  next
    fix k
    assume "k < length (map ?F [0..<m])"
    from lay [OF this] show "unat (of_nat k :: byte) = k"
      by blast
  next
    fix k
    assume "k < length (map ?F [0..<m])"
    from lay [OF this] show "uint (word_of_int count :: byte) = count"
      by blast
  qed
qed

theorem chunk_datagram_layout_witness:
  "0 < chunkDataSize (graylog_writer accept_all) \<and>
   0 \<le> chunkSize (graylog_writer accept_all) \<and>
   chunkCount (graylog_writer accept_all) (replicate 1500 9) = Inr 2 \<and> (1 :: int) < 2 \<and>
   conn_writes (snd (Write_send (graylog_writer accept_all) (replicate 1500 9) sample_env)) =
     [[0x1e, 0x0f] @ sample_id @ [0, 2] @ replicate 1408 9,
      [0x1e, 0x0f] @ sample_id @ [1, 2] @ replicate 92 9] \<and>
   (\<exists>ds. conn_writes (snd (Write_send (graylog_writer accept_all) (replicate 1500 9) sample_env)) =
           conn_writes sample_env @ ds \<and>
         length ds \<le> nat 2 \<and>
         (\<forall>k<length ds.
            ds ! k = [0x1e, 0x0f] @ snd (snd (fst (ReadFull sample_env))) @
                       [of_nat k, word_of_int 2] @
                       take (nat (chunkDataSize (graylog_writer accept_all)))
                         (drop (k * nat (chunkDataSize (graylog_writer accept_all)))
                            (replicate 1500 9))))"
proof -
  let ?w = "graylog_writer accept_all"
  let ?p = "replicate 1500 (9 :: byte)"
  have cds: "0 < chunkDataSize ?w"
    by (simp add: graylog_writer_sizes)
  have cs: "0 \<le> chunkSize ?w"
    by (simp add: graylog_writer_sizes)
  have cc: "chunkCount ?w ?p = Inr 2"
    by (simp add: chunkCount_pos graylog_writer_sizes)
  have c1: "(1 :: int) < 2"
    by simp
  have acc: "\<forall>h d. conn ?w h d = (len d, None)"
    by (simp add: graylog_writer_sizes accept_all_def)
  have "Write_send ?w ?p sample_env =
         (Inr (len ?p, None),
          sample_env\<lparr>rand_reads := Suc (rand_reads sample_env),
            conn_writes := conn_writes sample_env @
              map (chunk_datagram ?w ?p sample_id (word_of_int 2)) [0..<nat 2]\<rparr>)"
    by (rule chunked_accept_all [OF cds cs cc c1 _ sample_ReadFull acc])
      (simp add: MaxChunkCount_def)
  then have sent: "conn_writes (snd (Write_send ?w ?p sample_env)) =
     [[0x1e, 0x0f] @ sample_id @ [0, 2] @ replicate 1408 9,
      [0x1e, 0x0f] @ sample_id @ [1, 2] @ replicate 92 9]"
    by (simp add: small_upt chunk_datagram_def chunkedMagicBytes_def graylog_writer_sizes
        sample_env_def)
  from chunk_datagram_layout [OF cds cs cc c1, of sample_env]
  have "\<exists>ds. conn_writes (snd (Write_send ?w ?p sample_env)) = conn_writes sample_env @ ds \<and>
         length ds \<le> nat 2 \<and>
         (\<forall>k<length ds.
            ds ! k = [0x1e, 0x0f] @ snd (snd (fst (ReadFull sample_env))) @
                       [of_nat k, word_of_int 2] @
                       take (nat (chunkDataSize ?w)) (drop (k * nat (chunkDataSize ?w)) ?p))"
    by blast
  with cds cs cc c1 sent show ?thesis
    by blast
qed

text \<open>
  Claim C9. When the Graylog address is not empty and the dial fails, \<open>New\<close> returns
  what \<open>Build\<close> returns for the console core: the dial error is not in the result, and
  when \<open>zap\<close> builds its logger the result is that logger over the console core and a
  nil error, after the fallback message was printed.
\<close>

theorem New_dial_failure_falls_back:
  assumes "GraylogAddress configuration \<noteq> []"
    and "DialTimeout (GraylogAddress configuration) = Inl err"
  shows "New DialTimeout build_err configuration =
           (case build_err of
              None \<Rightarrow> ((Some \<lparr>logger_core = ConsoleCore\<rparr>, None),
                        [''could not connect with graylog, falling back to stdout''])
            | Some e \<Rightarrow> ((None, Some e), []))"
  using assms by (simp add: New_def corewrap_def split: option.splits)

theorem New_dial_failure_falls_back_witness:
  "GraylogAddress test_configuration \<noteq> [] \<and>
   dial_fails (GraylogAddress test_configuration) = Inl (ErrExternal ''dial udp: i/o timeout'') \<and>
   New dial_fails None test_configuration =
     ((Some \<lparr>logger_core = ConsoleCore\<rparr>, None),
      [''could not connect with graylog, falling back to stdout''])"
proof -
  have a: "GraylogAddress test_configuration \<noteq> []"
    by (simp add: test_configuration_def)
  have d: "dial_fails (GraylogAddress test_configuration) = Inl (ErrExternal ''dial udp: i/o timeout'')"
    by (simp add: dial_fails_def)
  from New_dial_failure_falls_back [of test_configuration dial_fails, OF a d, of None] a d show ?thesis
    by simp
qed

text \<open>
  Claim C10. When the compression type is none of \<open>CompressionNone\<close>, \<open>CompressionGzip\<close>
  and \<open>CompressionZlib\<close>, the switch of \<open>Write\<close> leaves \<open>cw\<close> nil, and the call
  \<open>cw.Write(buf)\<close> panics with a nil dereference: \<open>Write\<close> returns no error value,
  and nothing is sent or read.
\<close>

theorem Write_unknown_compression_panics:
  assumes "compressionType w \<notin> {CompressionNone, CompressionGzip, CompressionZlib}"
  shows "Write cs w buf e = (Inl NilDereference, e)"
  using assms by (simp add: Write_def Write_compress_def)

theorem Write_unknown_compression_panics_witness:
  "\<forall>cs. compressionType ((graylog_writer accept_all)\<lparr>compressionType := 3\<rparr>) \<notin>
       {CompressionNone, CompressionGzip, CompressionZlib} \<and>
     Write cs ((graylog_writer accept_all)\<lparr>compressionType := 3\<rparr>) [104, 105] sample_env =
       (Inl NilDereference, sample_env)"
proof (intro allI conjI)
  fix cs :: codecs
  show h: "compressionType ((graylog_writer accept_all)\<lparr>compressionType := 3\<rparr>) \<notin>
       {CompressionNone, CompressionGzip, CompressionZlib}"
    by (simp add: CompressionNone_def CompressionGzip_def CompressionZlib_def)
  show "Write cs ((graylog_writer accept_all)\<lparr>compressionType := 3\<rparr>) [104, 105] sample_env =
       (Inl NilDereference, sample_env)"
    by (rule Write_unknown_compression_panics [OF h])
qed

end
